theory Spec2Isabelle
  imports Complex_Main
begin

section \<open>The celestial state model of the solar-system toy\<close>

text \<open>
  The development embeds the state-handling code of \<^verbatim>\<open>src/App.tsx\<close>,
  \<^verbatim>\<open>src/components/UniverseView.tsx\<close> and \<^verbatim>\<open>src/components/HomeView.tsx\<close>.
  A JavaScript \<^verbatim>\<open>number\<close> is read as an exact real number: \<open>+\<close>, \<open>-\<close>, \<open>*\<close> and \<open>/\<close>
  are the field operations of \<^typ>\<open>real\<close>, and the statements on the geometry, the
  edits and the phase names are statements of exact arithmetic. The rounding of IEEE-754
  doubles is modelled separately, in the section on double precision, for the values
  where it decides a statement: the accumulation of the orbit progress, the
  resynchronisation to a date, and the wrap of the Earth drag.
\<close>

subsection \<open>Operations of the language and its library\<close>

text \<open>
  The remainder operator \<^verbatim>\<open>x % y\<close> of JavaScript truncates the quotient towards zero, so
  the result has the sign of the dividend.
\<close>

definition trunc :: "real \<Rightarrow> int" where
  "trunc x = (if 0 \<le> x then \<lfloor>x\<rfloor> else \<lceil>x\<rceil>)"

definition jsrem :: "real \<Rightarrow> real \<Rightarrow> real" where
  "jsrem x y = x - y * of_int (trunc (x / y))"

text \<open>
  \<^verbatim>\<open>Math.atan2(y, x)\<close>: the angle of the point \<open>(x, y)\<close> in \<open>(-\<pi>, \<pi>]\<close>, and \<open>0\<close> at
  the origin.
\<close>

definition atan2 :: "real \<Rightarrow> real \<Rightarrow> real" where
  "atan2 y x =
     (if 0 < x then arctan (y / x)
      else if x < 0 then (if 0 \<le> y then arctan (y / x) + pi else arctan (y / x) - pi)
      else if 0 < y then pi / 2
      else if y < 0 then - (pi / 2)
      else 0)"

subsection \<open>The state (\<^verbatim>\<open>CelestialState\<close> of the type declarations)\<close>

text \<open>
  A \<^verbatim>\<open>Date\<close> is its time value, the milliseconds since the Unix epoch that
  \<^verbatim>\<open>getTime()\<close> returns. Only valid dates are ever stored in the state.
\<close>

record CelestialState =
  time :: real
  date :: int
  earthOrbitProgress :: real
  moonOrbitProgress :: real

definition msPerDay :: int where
  "msPerDay = 1000 * 60 * 60 * 24"

text \<open>
  \<^verbatim>\<open>d.setDate(d.getDate() + 1)\<close> moves a date to the same local time on the next
  calendar day; under a fixed offset from UTC that is one day of milliseconds.
\<close>

definition nextDay :: "int \<Rightarrow> int" where
  "nextDay d = d + msPerDay"

text \<open>
  The state the application starts from. \<open>referenceDate\<close> stands for the time value of
  \<^verbatim>\<open>new Date(2025, 0, 1)\<close>, local midnight of 1 January 2025, which depends on the time
  zone of the runtime and is a parameter throughout.
\<close>

definition initialState :: "int \<Rightarrow> CelestialState" where
  "initialState referenceDate =
     \<lparr>time = 18, date = referenceDate, earthOrbitProgress = 0, moonOrbitProgress = 0\<rparr>"

subsection \<open>The clock tick (the \<^verbatim>\<open>setInterval\<close> callback of \<^verbatim>\<open>App\<close>)\<close>

definition timeIncrement :: real where
  "timeIncrement = 2 / 100"

definition earthIncrement :: real where
  "earthIncrement = timeIncrement / (24 * 365)"

definition moonIncrement :: real where
  "moonIncrement = timeIncrement / (24 * 28)"

definition tick :: "CelestialState \<Rightarrow> CelestialState" where
  "tick prev =
     (let newTime = time prev + timeIncrement;
          newDate = (if newTime \<ge> 24 then nextDay (date prev) else date prev)
      in prev\<lparr>time := jsrem newTime 24,
              date := newDate,
              earthOrbitProgress := jsrem (earthOrbitProgress prev + earthIncrement) 1,
              moonOrbitProgress := jsrem (moonOrbitProgress prev + moonIncrement) 1\<rparr>)"

text \<open>The canonical ranges of the three cyclic fields.\<close>

definition inRange :: "CelestialState \<Rightarrow> bool" where
  "inRange s =
     (0 \<le> time s \<and> time s < 24 \<and>
      0 \<le> earthOrbitProgress s \<and> earthOrbitProgress s < 1 \<and>
      0 \<le> moonOrbitProgress s \<and> moonOrbitProgress s < 1)"

subsection \<open>Date-driven resynchronisation (\<^verbatim>\<open>handleDateChange\<close> of \<^verbatim>\<open>App\<close>)\<close>

text \<open>
  The argument \<open>parsed\<close> is the outcome of \<^verbatim>\<open>new Date(e.target.value)\<close>: \<open>None\<close> for an
  invalid date, whose time value is \<^verbatim>\<open>NaN\<close>, and the time value otherwise.
  \<^verbatim>\<open>Math.floor\<close> of the quotient of two integers is integer division rounding down.
\<close>

definition daysDiff :: "int \<Rightarrow> int \<Rightarrow> int" where
  "daysDiff referenceDate newDate = (newDate - referenceDate) div msPerDay"

definition newEarthProgress :: "int \<Rightarrow> real" where
  "newEarthProgress dd = jsrem (of_int dd / 365) 1"

definition newMoonProgress :: "int \<Rightarrow> real" where
  "newMoonProgress dd = jsrem (of_int dd / 28) 1"

definition handleDateChange :: "int \<Rightarrow> int option \<Rightarrow> CelestialState \<Rightarrow> CelestialState" where
  "handleDateChange referenceDate parsed prev =
     (case parsed of
        None \<Rightarrow> prev
      | Some newDate \<Rightarrow>
          (let dd = daysDiff referenceDate newDate;
               e = newEarthProgress dd;
               m = newMoonProgress dd
           in prev\<lparr>date := newDate,
                   earthOrbitProgress := (if e < 0 then e + 1 else e),
                   moonOrbitProgress := (if m < 0 then m + 1 else m)\<rparr>))"

subsection \<open>The time edit (\<^verbatim>\<open>handleTimeChange\<close> of \<^verbatim>\<open>App\<close>)\<close>

definition isDigit :: "char \<Rightarrow> bool" where
  "isDigit c = (c \<in> set ''0123456789'')"

text \<open>\<^verbatim>\<open>value.replace(/[^0-9:]/g, '')\<close> deletes every character but digits and colons.\<close>

definition keepDigitsColon :: "string \<Rightarrow> string" where
  "keepDigitsColon v = filter (\<lambda>c. isDigit c \<or> c = CHR '':'') v"

text \<open>\<^verbatim>\<open>s.split(':')\<close>: the fields between the separators; the empty string has one field.\<close>

fun splitOn :: "char \<Rightarrow> string \<Rightarrow> string list" where
  "splitOn sep [] = [[]]"
| "splitOn sep (c # cs) =
     (if c = sep then [] # splitOn sep cs
      else (case splitOn sep cs of
              [] \<Rightarrow> [[c]]
            | f # fs \<Rightarrow> (c # f) # fs))"

definition digitVal :: "char \<Rightarrow> nat" where
  "digitVal c = of_char c - 48"

text \<open>
  \<^verbatim>\<open>Number(s)\<close> on a field: the empty string converts to \<open>0\<close>, a string of decimal digits
  to its value, and anything else to \<^verbatim>\<open>NaN\<close>, which is \<open>None\<close> here. After the
  replacement above a field holds digits only. The value is kept exact; the rounding of
  a long string of digits leaves a number of \<open>24\<close> or more at \<open>24\<close> or more.
\<close>

definition decimal :: "string \<Rightarrow> nat" where
  "decimal f = foldl (\<lambda>n c. 10 * n + digitVal c) 0 f"

definition Number :: "string \<Rightarrow> real option" where
  "Number f = (if list_all isDigit f then Some (of_nat (decimal f)) else None)"

text \<open>
  The destructuring \<^verbatim>\<open>[hours, minutes] = ...\<close> reads the elements \<open>0\<close> and \<open>1\<close> of the
  array; a missing element is \<^verbatim>\<open>undefined\<close>, for which \<^verbatim>\<open>isNaN\<close> holds as for
  \<^verbatim>\<open>NaN\<close>: both are \<open>None\<close>.
\<close>

definition element :: "real option list \<Rightarrow> nat \<Rightarrow> real option" where
  "element xs i = (if i < length xs then xs ! i else None)"

definition handleTimeChange :: "string \<Rightarrow> CelestialState \<Rightarrow> CelestialState" where
  "handleTimeChange v prev =
     (let value = keepDigitsColon v;
          parts = map Number (splitOn (CHR '':'') value)
      in case (element parts 0, element parts 1) of
           (Some hours, Some minutes) \<Rightarrow>
             (if hours \<ge> 0 \<and> hours < 24 \<and> minutes \<ge> 0 \<and> minutes < 60
              then prev\<lparr>time := hours + minutes / 60\<rparr>
              else prev)
         | _ \<Rightarrow> prev)"

subsection \<open>The phase names (\<^verbatim>\<open>moonPhaseText\<close> of \<^verbatim>\<open>SkyContent\<close>, \<^verbatim>\<open>moonPhaseName\<close> of \<^verbatim>\<open>App\<close>)\<close>

text \<open>
  The eight names stand for the strings the code returns; \<open>Unnamed\<close> stands for the
  string of the final \<^verbatim>\<open>return\<close>, which names no phase (the empty string in
  \<^verbatim>\<open>moonPhaseText\<close>, a sentence saying that the phase is changing in \<^verbatim>\<open>moonPhaseName\<close>).
\<close>

datatype PhaseName =
  NewMoon | WaxingCrescent | FirstQuarter | WaxingGibbous
  | FullMoon | WaningGibbous | LastQuarter | WaningCrescent | Unnamed

definition normalize :: "real \<Rightarrow> real" where
  "normalize p = jsrem (jsrem p 1 + 1) 1"

definition moonPhaseText :: "CelestialState \<Rightarrow> PhaseName" where
  "moonPhaseText s =
     (let prog = normalize (moonOrbitProgress s)
      in if prog < 3 / 100 \<or> prog > 97 / 100 then NewMoon
         else if prog \<ge> 3 / 100 \<and> prog < 22 / 100 then WaxingCrescent
         else if prog \<ge> 22 / 100 \<and> prog < 28 / 100 then FirstQuarter
         else if prog \<ge> 28 / 100 \<and> prog < 47 / 100 then WaxingGibbous
         else if prog \<ge> 47 / 100 \<and> prog < 53 / 100 then FullMoon
         else if prog \<ge> 53 / 100 \<and> prog < 72 / 100 then WaningGibbous
         else if prog \<ge> 72 / 100 \<and> prog < 78 / 100 then LastQuarter
         else if prog \<ge> 78 / 100 \<and> prog < 97 / 100 then WaningCrescent
         else Unnamed)"

definition moonPhaseName :: "CelestialState \<Rightarrow> PhaseName" where
  "moonPhaseName s =
     (let p = normalize (moonOrbitProgress s)
      in if p < 3 / 100 \<or> p > 97 / 100 then NewMoon
         else if p \<ge> 3 / 100 \<and> p < 22 / 100 then WaningCrescent
         else if p \<ge> 22 / 100 \<and> p < 28 / 100 then LastQuarter
         else if p \<ge> 28 / 100 \<and> p < 47 / 100 then WaningGibbous
         else if p \<ge> 47 / 100 \<and> p < 53 / 100 then FullMoon
         else if p \<ge> 53 / 100 \<and> p < 72 / 100 then WaxingGibbous
         else if p \<ge> 72 / 100 \<and> p < 78 / 100 then FirstQuarter
         else if p \<ge> 78 / 100 \<and> p < 97 / 100 then WaxingCrescent
         else Unnamed)"

subsection \<open>The rendered positions (\<^verbatim>\<open>EarthSystem\<close> of \<^verbatim>\<open>UniverseView\<close>)\<close>

text \<open>
  Positions are pairs \<open>(x, z)\<close> in the orbital plane; the component \<open>y\<close> is \<open>0\<close> for every
  body. \<open>orbitDist\<close> and \<open>moonDist\<close> are the properties \<^verbatim>\<open>Scene\<close> passes down.
\<close>

definition earthX :: "CelestialState \<Rightarrow> real \<Rightarrow> real" where
  "earthX s orbitDist = cos (earthOrbitProgress s * pi * 2) * orbitDist"

definition earthZ :: "CelestialState \<Rightarrow> real \<Rightarrow> real" where
  "earthZ s orbitDist = - sin (earthOrbitProgress s * pi * 2) * orbitDist"

definition angleToSun :: "CelestialState \<Rightarrow> real \<Rightarrow> real" where
  "angleToSun s orbitDist = atan2 (- earthZ s orbitDist) (- earthX s orbitDist)"

definition moonAngle :: "CelestialState \<Rightarrow> real \<Rightarrow> real" where
  "moonAngle s orbitDist = angleToSun s orbitDist + moonOrbitProgress s * pi * 2"

definition timeAngle :: "CelestialState \<Rightarrow> real" where
  "timeAngle s = (time s / 24) * pi * 2"

definition markerDist :: "bool \<Rightarrow> real" where
  "markerDist isMobile = (if isMobile then 35 else 30)"

definition userLocalX :: "CelestialState \<Rightarrow> real \<Rightarrow> bool \<Rightarrow> real" where
  "userLocalX s orbitDist isMobile =
     cos (angleToSun s orbitDist + timeAngle s) * markerDist isMobile"

definition userLocalZ :: "CelestialState \<Rightarrow> real \<Rightarrow> bool \<Rightarrow> real" where
  "userLocalZ s orbitDist isMobile =
     sin (angleToSun s orbitDist + timeAngle s) * markerDist isMobile"

text \<open>The Moon's mesh, relative to the group placed at Earth's position.\<close>

definition moonLocal :: "CelestialState \<Rightarrow> real \<Rightarrow> real \<Rightarrow> real \<times> real" where
  "moonLocal s orbitDist moonDist =
     (cos (moonAngle s orbitDist) * moonDist, - sin (moonAngle s orbitDist) * moonDist)"

text \<open>A child of the group is drawn at the group's position plus its own.\<close>

definition moonWorld :: "CelestialState \<Rightarrow> real \<Rightarrow> real \<Rightarrow> real \<times> real" where
  "moonWorld s orbitDist moonDist =
     (earthX s orbitDist + fst (moonLocal s orbitDist moonDist),
      earthZ s orbitDist + snd (moonLocal s orbitDist moonDist))"

definition EARTH_DIST :: "bool \<Rightarrow> real" where
  "EARTH_DIST isMobile = (if isMobile then 450 else 350)"

definition MOON_DIST :: "bool \<Rightarrow> real" where
  "MOON_DIST isMobile = (if isMobile then 150 else 110)"

subsection \<open>Dragging (\<^verbatim>\<open>handleDragUpdate\<close> of \<^verbatim>\<open>Scene\<close>)\<close>

text \<open>
  \<^verbatim>\<open>Partial<CelestialState>\<close>: each field is present or absent. The merge
  \<^verbatim>\<open>{...prev, ...newState}\<close> of \<^verbatim>\<open>App\<close> overwrites the fields that are present.
\<close>

record PartialState =
  timeP :: "real option"
  dateP :: "int option"
  earthOrbitProgressP :: "real option"
  moonOrbitProgressP :: "real option"

definition noFields :: PartialState where
  "noFields = \<lparr>timeP = None, dateP = None, earthOrbitProgressP = None, moonOrbitProgressP = None\<rparr>"

definition merge :: "CelestialState \<Rightarrow> PartialState \<Rightarrow> CelestialState" where
  "merge prev newState =
     \<lparr>time = (case timeP newState of None \<Rightarrow> time prev | Some v \<Rightarrow> v),
      date = (case dateP newState of None \<Rightarrow> date prev | Some v \<Rightarrow> v),
      earthOrbitProgress =
        (case earthOrbitProgressP newState of None \<Rightarrow> earthOrbitProgress prev | Some v \<Rightarrow> v),
      moonOrbitProgress =
        (case moonOrbitProgressP newState of None \<Rightarrow> moonOrbitProgress prev | Some v \<Rightarrow> v)\<rparr>"

datatype DragTarget = earth | moon

text \<open>The two loops that bring the Moon's progress into range.\<close>

function wrapUp :: "real \<Rightarrow> real" where
  "wrapUp progress = (if progress < 0 then wrapUp (progress + 1) else progress)"
  by pat_completeness auto
termination
proof (relation "measure (\<lambda>p. nat \<lceil>- p\<rceil>)")
  show "wf (measure (\<lambda>p::real. nat \<lceil>- p\<rceil>))" by simp
next
  fix progress :: real
  assume neg: "progress < 0"
  have "\<lceil>- (progress + 1)\<rceil> = \<lceil>- progress\<rceil> - 1" by linarith
  moreover from neg have "0 < \<lceil>- progress\<rceil>" by linarith
  ultimately show "(progress + 1, progress) \<in> measure (\<lambda>p. nat \<lceil>- p\<rceil>)" by simp
qed

function wrapDown :: "real \<Rightarrow> real" where
  "wrapDown progress = (if progress \<ge> 1 then wrapDown (progress - 1) else progress)"
  by pat_completeness auto
termination
proof (relation "measure (\<lambda>p. nat \<lfloor>p\<rfloor>)")
  show "wf (measure (\<lambda>p::real. nat \<lfloor>p\<rfloor>))" by simp
next
  fix progress :: real
  assume big: "1 \<le> progress"
  have "\<lfloor>progress - 1\<rfloor> = \<lfloor>progress\<rfloor> - 1" by linarith
  moreover from big have "0 < \<lfloor>progress\<rfloor>" by linarith
  ultimately show "(progress - 1, progress) \<in> measure (\<lambda>p. nat \<lfloor>p\<rfloor>)" by simp
qed

declare wrapUp.simps [simp del] wrapDown.simps [simp del]

text \<open>
  The Earth branch adds \<open>1\<close> once to a negative quotient. Over the reals the sum is
  below \<open>1\<close>; the rounded sum of the program is \<open>dEarthDragBelow\<close> of the section on double
  precision.
\<close>

definition invertEarthDrag :: "real \<times> real \<Rightarrow> real" where
  "invertEarthDrag point =
     (let angle = atan2 (snd point) (fst point);
          progress = angle / (pi * 2)
      in if progress < 0 then progress + 1 else progress)"

text \<open>Earth's position as the drag handler computes it.\<close>

definition dragEarthX :: "CelestialState \<Rightarrow> bool \<Rightarrow> real" where
  "dragEarthX s isMobile = cos (earthOrbitProgress s * pi * 2) * EARTH_DIST isMobile"

definition dragEarthZ :: "CelestialState \<Rightarrow> bool \<Rightarrow> real" where
  "dragEarthZ s isMobile = sin (earthOrbitProgress s * pi * 2) * EARTH_DIST isMobile"

definition invertMoonDrag :: "CelestialState \<Rightarrow> bool \<Rightarrow> real \<times> real \<Rightarrow> real" where
  "invertMoonDrag s isMobile point =
     (let ex = dragEarthX s isMobile;
          ez = dragEarthZ s isMobile;
          relX = fst point - ex;
          relZ = snd point - ez;
          relAngle = atan2 relZ relX;
          toSun = atan2 (- ez) (- ex);
          progress = (relAngle - toSun) / (pi * 2)
      in wrapDown (wrapUp progress))"

text \<open>
  The handler calls \<^verbatim>\<open>onChange\<close> with a one-field update, or returns without calling
  it (\<open>None\<close>) when nothing is being dragged or the view is the miniature map.
\<close>

definition handleDragUpdate ::
  "DragTarget option \<Rightarrow> bool \<Rightarrow> bool \<Rightarrow> CelestialState \<Rightarrow> real \<times> real \<Rightarrow> PartialState option" where
  "handleDragUpdate dragTarget miniMap isMobile s point =
     (case dragTarget of
        None \<Rightarrow> None
      | Some t \<Rightarrow>
          if miniMap then None
          else (case t of
                  earth \<Rightarrow> Some (noFields\<lparr>earthOrbitProgressP := Some (invertEarthDrag point)\<rparr>)
                | moon \<Rightarrow>
                    Some (noFields\<lparr>moonOrbitProgressP := Some (invertMoonDrag s isMobile point)\<rparr>)))"

text \<open>
  A pointer move while dragging, as \<^verbatim>\<open>App\<close> sees it. The handler reads \<open>state\<close>, the
  state of the last rendering, and the update is merged into \<open>prev\<close>, the state at the
  time of the merge.
\<close>

definition dragStep ::
  "DragTarget option \<Rightarrow> bool \<Rightarrow> bool \<Rightarrow> CelestialState \<Rightarrow> real \<times> real \<Rightarrow> CelestialState
     \<Rightarrow> CelestialState" where
  "dragStep dragTarget miniMap isMobile state point prev =
     (case handleDragUpdate dragTarget miniMap isMobile state point of
        None \<Rightarrow> prev
      | Some newState \<Rightarrow> merge prev newState)"

subsection \<open>The two-dimensional overlay (\<^verbatim>\<open>miniMapPositions\<close> of \<^verbatim>\<open>App\<close>)\<close>











subsection \<open>The sky of the home view (\<^verbatim>\<open>SkyContent\<close> of \<^verbatim>\<open>HomeView\<close>)\<close>

text \<open>The height of the Sun over the observer's horizon, and the test for day.\<close>

definition sunAzimuth :: "CelestialState \<Rightarrow> real" where
  "sunAzimuth s = (time s - 12) * (pi / 12)"

definition sunY :: "CelestialState \<Rightarrow> real" where
  "sunY s = cos (sunAzimuth s) * 350"

definition isDay :: "CelestialState \<Rightarrow> bool" where
  "isDay s = (time s \<ge> 6 \<and> time s < 18)"

subsection \<open>Double precision\<close>

text \<open>
  The rounding of the arithmetic, for the accumulation of the orbit progress. A
  non-negative double is written as a natural number of units of \<open>2\<^sup>-\<^sup>8\<^sup>0\<close>. A double
  carries a significand of \<open>53\<close> bits, and an operation returns the representable number
  nearest to the exact result, the one with the even significand when two are equally
  near. Every exact result rounded below is a whole number of units or at least
  \<open>2\<^sup>5\<^sup>2\<close> units, so that the doubles around it are whole numbers of units.
\<close>

text \<open>The number of low bits of \<open>n\<close> that a significand of \<open>53\<close> bits cannot hold.\<close>

fun excessBits :: "nat \<Rightarrow> nat" where
  "excessBits n = (if n < 2 ^ 53 then 0 else Suc (excessBits (n div 2)))"

declare excessBits.simps [simp del]

text \<open>The integer nearest to \<open>a / b\<close>, the even one of two equally near.\<close>

definition roundHalfEven :: "nat \<Rightarrow> nat \<Rightarrow> nat" where
  "roundHalfEven a b =
     (let q = a div b; r = a mod b
      in if 2 * r > b \<or> (2 * r = b \<and> odd q) then q + 1 else q)"

text \<open>The multiple of \<open>2\<^sup>s\<close> nearest to \<open>a / b\<close>, and the double nearest to \<open>a / b\<close>.\<close>

definition roundAt :: "nat \<Rightarrow> nat \<Rightarrow> nat \<Rightarrow> nat" where
  "roundAt s a b = roundHalfEven a (b * 2 ^ s) * 2 ^ s"

definition toDouble :: "nat \<Rightarrow> nat \<Rightarrow> nat" where
  "toDouble a b = roundAt (excessBits (a div b)) a b"

definition unit :: nat where
  "unit = 2 ^ 80"

text \<open>
  The operators \<^verbatim>\<open>+\<close> and \<^verbatim>\<open>/\<close> round the exact sum and quotient; \<^verbatim>\<open>% 1\<close> on a
  non-negative double is exact.
\<close>

definition dAdd :: "nat \<Rightarrow> nat \<Rightarrow> nat" where
  "dAdd x y = toDouble (x + y) 1"

definition dDiv :: "nat \<Rightarrow> nat \<Rightarrow> nat" where
  "dDiv x y = toDouble (x * unit) y"

definition dRem1 :: "nat \<Rightarrow> nat" where
  "dRem1 x = x mod unit"

text \<open>
  The literal \<^verbatim>\<open>0.02\<close> is the double nearest to \<open>2 / 100\<close>; the products \<^verbatim>\<open>24 * 365\<close>
  and the day counts are integers, which are doubles as they stand.
\<close>

definition dTimeIncrement :: nat where
  "dTimeIncrement = toDouble (2 * unit) 100"

definition dEarthIncrement :: nat where
  "dEarthIncrement = dDiv dTimeIncrement (24 * 365 * unit)"

text \<open>
  The field \<open>earthOrbitProgress\<close> after one tick, \<^verbatim>\<open>(prev.earthOrbitProgress + earthIncrement) % 1\<close>,
  and after a resynchronisation to a date \<open>dd\<close> days after the reference date,
  \<^verbatim>\<open>(daysDiff / 365) % 1\<close>, which is not negative for such a date.
\<close>

definition dEarthStep :: "nat \<Rightarrow> nat" where
  "dEarthStep x = dRem1 (dAdd x dEarthIncrement)"

definition dNewEarthProgress :: "nat \<Rightarrow> nat" where
  "dNewEarthProgress dd = dRem1 (dDiv (dd * unit) (365 * unit))"

text \<open>The same for the field \<open>moonOrbitProgress\<close>, with its period of \<open>28\<close> days.\<close>

definition dMoonIncrement :: nat where
  "dMoonIncrement = dDiv dTimeIncrement (24 * 28 * unit)"

definition dMoonStep :: "nat \<Rightarrow> nat" where
  "dMoonStep x = dRem1 (dAdd x dMoonIncrement)"

definition dNewMoonProgress :: "nat \<Rightarrow> nat" where
  "dNewMoonProgress dd = dRem1 (dDiv (dd * unit) (28 * unit))"

text \<open>
  For a date \<open>dd\<close> days before the reference date the quotient and its remainder are
  the negatives of those for \<open>dd\<close>, the rounding being symmetric. A remainder \<open>- m\<close>
  below zero has \<open>1\<close> added, \<^verbatim>\<open>newEarthProgress < 0 ? newEarthProgress + 1 : newEarthProgress\<close>,
  a sum that is rounded; the remainder zero is stored as it is.
\<close>

definition dWrapNegative :: "nat \<Rightarrow> nat" where
  "dWrapNegative m = (if 0 < m then toDouble (unit - m) 1 else 0)"

definition dNewEarthProgressBefore :: "nat \<Rightarrow> nat" where
  "dNewEarthProgressBefore dd = dWrapNegative (dRem1 (dDiv (dd * unit) (365 * unit)))"

definition dNewMoonProgressBefore :: "nat \<Rightarrow> nat" where
  "dNewMoonProgressBefore dd = dWrapNegative (dRem1 (dDiv (dd * unit) (28 * unit)))"

text \<open>
  The distance of two progress values around the orbit, in units: the shorter way
  round, so that a value just below \<open>1\<close> is near \<open>0\<close>.
\<close>

definition circDist :: "nat \<Rightarrow> nat \<Rightarrow> int" where
  "circDist x y = min ((int x - int y) mod int unit) ((int y - int x) mod int unit)"

text \<open>
  The Earth drag of \<open>handleDragUpdate\<close> in double precision, for a point below the
  \<open>x\<close> axis, where \<^verbatim>\<open>Math.atan2\<close> returns a negative angle \<open>- a\<close>. The drag reaches
  angles far below \<open>2\<^sup>-\<^sup>2\<^sup>8\<close>, so that the numbers are written in units of \<open>2\<^sup>-\<^sup>1\<^sup>6\<^sup>0\<close> here.
  \<^verbatim>\<open>Math.PI\<close> is the double \<open>884279719003555 / 2\<^sup>4\<^sup>8\<close>, and \<^verbatim>\<open>Math.PI * 2\<close> is
  its double, without rounding. The quotient \<^verbatim>\<open>angleRad / (Math.PI * 2)\<close> is \<open>- p\<close> for the
  rounded quotient \<open>p\<close> of \<open>a\<close>; when it is below zero the branch
  \<^verbatim>\<open>if (progress < 0) progress += 1\<close> stores the rounded sum, and nothing follows it.
\<close>

definition fineUnit :: nat where
  "fineUnit = 2 ^ 160"

definition dTwoPi :: nat where
  "dTwoPi = 884279719003555 * 2 ^ 113"

definition dEarthDragBelow :: "nat \<Rightarrow> nat" where
  "dEarthDragBelow a =
     (let p = toDouble (a * fineUnit) dTwoPi
      in if 0 < p then toDouble (fineUnit - p) 1 else 0)"

section \<open>Properties\<close>

subsection \<open>The remainder operator\<close>

lemma trunc_nonneg: "0 \<le> x \<Longrightarrow> trunc x = \<lfloor>x\<rfloor>"
  by (simp add: trunc_def)

lemma jsrem_nonneg_eq: "0 \<le> x \<Longrightarrow> 0 < y \<Longrightarrow> jsrem x y = y * frac (x / y)"
  by (simp add: jsrem_def trunc_def frac_def algebra_simps)

lemma jsrem_one_nonneg: "0 \<le> x \<Longrightarrow> jsrem x 1 = frac x"
  by (simp add: jsrem_nonneg_eq)

lemma jsrem_bounds: "0 \<le> x \<Longrightarrow> 0 < y \<Longrightarrow> 0 \<le> jsrem x y \<and> jsrem x y < y"
  by (simp add: jsrem_nonneg_eq frac_lt_1)

lemma jsrem_small: "0 \<le> x \<Longrightarrow> x < y \<Longrightarrow> jsrem x y = x"
proof -
  assume a: "0 \<le> x" "x < y"
  then have "0 \<le> x / y" "x / y < 1" by (simp_all add: field_simps)
  then have "\<lfloor>x / y\<rfloor> = 0" by linarith
  with a show ?thesis by (simp add: jsrem_def trunc_def)
qed

lemma jsrem_once: "y \<le> x \<Longrightarrow> x < 2 * y \<Longrightarrow> 0 < y \<Longrightarrow> jsrem x y = x - y"
proof -
  assume a: "y \<le> x" "x < 2 * y" "0 < y"
  then have "1 \<le> x / y" "x / y < 2" by (simp_all add: field_simps)
  then have "\<lfloor>x / y\<rfloor> = 1" by linarith
  with a show ?thesis by (simp add: jsrem_def trunc_def)
qed

subsection \<open>The angle function\<close>

lemma atan2_scale: "0 < r \<Longrightarrow> atan2 (y * r) (x * r) = atan2 y x"
  by (simp add: atan2_def zero_less_mult_iff mult_less_0_iff zero_le_mult_iff)

lemma atan2_bounds: "- pi < atan2 y x \<and> atan2 y x \<le> pi"
proof -
  have b: "- (pi / 2) < arctan (y / x)" "arctan (y / x) < pi / 2"
    by (rule arctan_lbound, rule arctan_ubound)
  have p: "0 < pi" by simp
  consider "0 < x" | "x < 0" "0 \<le> y" | "x < 0" "y < 0" | "x = 0"
    by linarith
  then show ?thesis
  proof cases
    case 1
    then have "atan2 y x = arctan (y / x)" by (simp add: atan2_def)
    with b p show ?thesis by linarith
  next
    case 2
    then have "y / x \<le> 0" by (simp add: divide_nonneg_neg)
    then have "arctan (y / x) \<le> 0" by simp
    moreover from 2 have "atan2 y x = arctan (y / x) + pi" by (simp add: atan2_def)
    ultimately show ?thesis using b p by linarith
  next
    case 3
    then have "0 < y / x" by (simp add: divide_neg_neg)
    then have "0 < arctan (y / x)" by simp
    moreover from 3 have "atan2 y x = arctan (y / x) - pi" by (simp add: atan2_def)
    ultimately show ?thesis using b p by linarith
  next
    case 4
    then have "atan2 y x = pi / 2 \<or> atan2 y x = - (pi / 2) \<or> atan2 y x = 0"
      by (simp add: atan2_def)
    with p show ?thesis by linarith
  qed
qed

lemma cos_nonpos_upper: "pi / 2 \<le> a \<Longrightarrow> a \<le> pi \<Longrightarrow> cos a \<le> 0"
  using cos_monotone_0_pi_le [of "pi / 2" a] by simp

lemma cos_neg_upper: "pi / 2 < a \<Longrightarrow> a \<le> pi \<Longrightarrow> cos a < 0"
  using cos_monotone_0_pi [of "pi / 2" a] by simp

lemma cos_pos_range:
  assumes "- pi < a" "a \<le> pi" "0 < cos a"
  shows "- (pi / 2) < a \<and> a < pi / 2"
proof -
  have "\<not> pi / 2 \<le> a" using cos_nonpos_upper [of a] assms by auto
  moreover have "\<not> a \<le> - (pi / 2)"
    using cos_nonpos_upper [of "- a"] assms by auto
  ultimately show ?thesis by linarith
qed

lemma cos_neg_sin_nonneg_range:
  assumes "- pi < a" "a \<le> pi" "cos a < 0" "0 \<le> sin a"
  shows "pi / 2 < a"
proof (rule ccontr)
  assume "\<not> pi / 2 < a"
  then have le: "a \<le> pi / 2" by simp
  show False
  proof (cases "- (pi / 2) \<le> a")
    case True
    with le have "0 \<le> cos a" by (intro cos_ge_zero)
    with assms show False by simp
  next
    case False
    with assms have "0 < sin (- a)" by (intro sin_gt_zero) simp_all
    with assms show False by simp
  qed
qed

lemma cos_neg_sin_neg_range:
  assumes "- pi < a" "a \<le> pi" "cos a < 0" "sin a < 0"
  shows "a < - (pi / 2)"
proof (rule ccontr)
  assume "\<not> a < - (pi / 2)"
  then have ge: "- (pi / 2) \<le> a" by simp
  show False
  proof (cases "a \<le> pi / 2")
    case True
    with ge have "0 \<le> cos a" by (intro cos_ge_zero)
    with assms show False by simp
  next
    case False
    with assms have "0 \<le> sin a" by (intro sin_ge_zero) simp_all
    with assms show False by simp
  qed
qed

lemma cos_zero_range:
  assumes "- pi < a" "a \<le> pi" "cos a = 0"
  shows "a = pi / 2 \<or> a = - (pi / 2)"
proof (rule ccontr)
  assume n: "\<not> (a = pi / 2 \<or> a = - (pi / 2))"
  consider "pi / 2 < a" | "a < - (pi / 2)" | "- (pi / 2) < a" "a < pi / 2"
    using n by linarith
  then show False
  proof cases
    case 1
    with assms cos_neg_upper [of a] show False by simp
  next
    case 2
    with assms cos_neg_upper [of "- a"] show False by simp
  next
    case 3
    then have "0 < cos a" by (rule cos_gt_zero_pi)
    with assms show False by simp
  qed
qed

lemma tan_shift: "tan (a - pi) = tan a" "tan (a + pi) = tan a"
  using tan_periodic_pi [of "a - pi"] tan_periodic_pi [of a] by simp_all

lemma atan2_sin_cos:
  assumes r: "- pi < a" "a \<le> pi"
  shows "atan2 (sin a) (cos a) = a"
proof -
  consider "0 < cos a" | "cos a < 0" "0 \<le> sin a" | "cos a < 0" "sin a < 0" | "cos a = 0"
    by linarith
  then show ?thesis
  proof cases
    case 1
    with r have "- (pi / 2) < a \<and> a < pi / 2" by (intro cos_pos_range)
    then have "arctan (tan a) = a" by (simp add: arctan_tan)
    with 1 show ?thesis by (simp add: atan2_def tan_def)
  next
    case 2
    with r have "pi / 2 < a" by (intro cos_neg_sin_nonneg_range)
    with r have "arctan (tan (a - pi)) = a - pi" by (intro arctan_tan) simp_all
    then have "arctan (tan a) = a - pi" by (simp add: tan_shift)
    with 2 show ?thesis by (simp add: atan2_def tan_def)
  next
    case 3
    with r have "a < - (pi / 2)" by (intro cos_neg_sin_neg_range)
    with r have "arctan (tan (a + pi)) = a + pi" by (intro arctan_tan) simp_all
    then have "arctan (tan a) = a + pi" by (simp add: tan_shift)
    with 3 show ?thesis by (simp add: atan2_def tan_def)
  next
    case 4
    with r have "a = pi / 2 \<or> a = - (pi / 2)" by (intro cos_zero_range)
    then show ?thesis
    proof
      assume e: "a = pi / 2"
      show ?thesis unfolding e by (simp add: atan2_def)
    next
      assume e: "a = - (pi / 2)"
      show ?thesis unfolding e by (simp add: atan2_def)
    qed
  qed
qed

lemma atan2_principal:
  "\<exists>b. - pi < b \<and> b \<le> pi \<and> sin b = sin a \<and> cos b = cos a \<and> atan2 (sin a) (cos a) = b"
proof -
  obtain b where b: "- pi < b" "b \<le> pi" "sin b = sin a" "cos b = cos a"
    using sincos_principal_value [of a] by blast
  then have "atan2 (sin b) (cos b) = b" by (intro atan2_sin_cos)
  with b show ?thesis by auto
qed

lemma cos_atan2_unit: "cos (atan2 (sin a) (cos a)) = cos a"
  using atan2_principal [of a] by auto

lemma sin_atan2_unit: "sin (atan2 (sin a) (cos a)) = sin a"
  using atan2_principal [of a] by auto

subsection \<open>Wrapping into the unit interval\<close>

lemma wrapUp_eq: "wrapUp p = (if p < 0 then frac p else p)"
proof (induction p rule: wrapUp.induct)
  case (1 p)
  show ?case
  proof (cases "p < 0")
    case True
    then have u: "wrapUp p = wrapUp (p + 1)" by (subst wrapUp.simps) simp
    show ?thesis
    proof (cases "p + 1 < 0")
      case True
      have "frac (p + 1) = frac p" by (simp add: frac_def)
      with 1 \<open>p < 0\<close> True u show ?thesis by simp
    next
      case False
      with \<open>p < 0\<close> have "\<lfloor>p\<rfloor> = - 1" by linarith
      then have "frac p = p + 1" by (simp add: frac_def)
      with 1 \<open>p < 0\<close> False u show ?thesis by simp
    qed
  next
    case False
    then show ?thesis by (subst wrapUp.simps) simp
  qed
qed

lemma wrapDown_eq: "0 \<le> p \<Longrightarrow> wrapDown p = frac p"
proof (induction p rule: wrapDown.induct)
  case (1 p)
  show ?case
  proof (cases "1 \<le> p")
    case True
    then have u: "wrapDown p = wrapDown (p - 1)" by (subst wrapDown.simps) simp
    have "frac (p - 1) = frac p" by (simp add: frac_def)
    with 1 True u show ?thesis by simp
  next
    case False
    with 1 have "\<lfloor>p\<rfloor> = 0" by linarith
    then have "frac p = p" by (simp add: frac_def)
    with False show ?thesis by (subst wrapDown.simps) simp
  qed
qed

lemma wrap_frac: "wrapDown (wrapUp p) = frac p"
proof (cases "p < 0")
  case True
  then have "wrapUp p = frac p" by (simp add: wrapUp_eq)
  then show ?thesis by (simp add: wrapDown_eq)
next
  case False
  then show ?thesis by (simp add: wrapUp_eq wrapDown_eq)
qed

lemma resync_frac: "(if jsrem x 1 < 0 then jsrem x 1 + 1 else jsrem x 1) = frac x"
proof (cases "0 \<le> x")
  case True
  have "\<not> frac x < 0" using frac_ge_0 [of x] by linarith
  with True show ?thesis by (simp add: jsrem_one_nonneg)
next
  case False
  then have j: "jsrem x 1 = x - of_int \<lceil>x\<rceil>" by (simp add: jsrem_def trunc_def)
  show ?thesis
  proof (cases "x \<in> \<int>")
    case True
    then have "of_int \<lceil>x\<rceil> = x" "frac x = 0" by simp_all
    with j show ?thesis by simp
  next
    case False
    then have "x \<noteq> of_int \<lfloor>x\<rfloor>" by (metis Ints_of_int)
    then have c: "\<lceil>x\<rceil> = \<lfloor>x\<rfloor> + 1" by (simp add: ceiling_altdef)
    have "frac x < 1" by (rule frac_lt_1)
    with j c show ?thesis by (simp add: frac_def)
  qed
qed

lemma invertEarthDrag_frac:
  "invertEarthDrag point = frac (atan2 (snd point) (fst point) / (pi * 2))"
proof -
  let ?a = "atan2 (snd point) (fst point)"
  have b: "- pi < ?a" "?a \<le> pi" using atan2_bounds [of "snd point" "fst point"] by simp_all
  have p: "0 < pi" by simp
  show ?thesis
  proof (cases "?a < 0")
    case True
    from b p have "- 1 < ?a / (pi * 2)" by (simp add: field_simps)
    moreover from True p have "?a / (pi * 2) < 0" by (simp add: field_simps)
    ultimately have "\<lfloor>?a / (pi * 2)\<rfloor> = - 1" by linarith
    then have "frac (?a / (pi * 2)) = ?a / (pi * 2) + 1" by (simp add: frac_def)
    with True p show ?thesis by (simp add: invertEarthDrag_def Let_def field_simps)
  next
    case False
    with p have "0 \<le> ?a / (pi * 2)" by simp
    moreover from b p have "?a / (pi * 2) < 1" by (simp add: field_simps)
    ultimately have "\<lfloor>?a / (pi * 2)\<rfloor> = 0" by linarith
    then have "frac (?a / (pi * 2)) = ?a / (pi * 2)" by (simp add: frac_def)
    with False p show ?thesis by (simp add: invertEarthDrag_def Let_def field_simps)
  qed
qed

lemma invertMoonDrag_frac:
  "invertMoonDrag s isMobile point =
   frac ((atan2 (snd point - dragEarthZ s isMobile) (fst point - dragEarthX s isMobile)
          - atan2 (- dragEarthZ s isMobile) (- dragEarthX s isMobile)) / (pi * 2))"
  by (simp add: invertMoonDrag_def Let_def wrap_frac)

lemma wrap_three_quarters: "wrapDown (wrapUp (- (1 / 4))) = 3 / 4"
proof -
  have "frac (- (1 / 4) :: real) = 3 / 4"
    by (simp add: frac_def)
  then show ?thesis by (simp only: wrap_frac)
qed

subsection \<open>The direction of the Sun\<close>

lemma angleToSun_unit:
  assumes "0 < orbitDist"
  shows "angleToSun s orbitDist =
         atan2 (sin (pi - earthOrbitProgress s * pi * 2)) (cos (pi - earthOrbitProgress s * pi * 2))"
proof -
  have "angleToSun s orbitDist =
        atan2 (sin (earthOrbitProgress s * pi * 2) * orbitDist)
              (- cos (earthOrbitProgress s * pi * 2) * orbitDist)"
    by (simp add: angleToSun_def earthX_def earthZ_def)
  also have "\<dots> = atan2 (sin (earthOrbitProgress s * pi * 2)) (- cos (earthOrbitProgress s * pi * 2))"
    using assms by (rule atan2_scale)
  finally show ?thesis by simp
qed


lemma cos_angleToSun:
  "0 < orbitDist \<Longrightarrow> cos (angleToSun s orbitDist) = - cos (earthOrbitProgress s * pi * 2)"
  by (simp only: angleToSun_unit cos_atan2_unit) simp

lemma sin_angleToSun:
  "0 < orbitDist \<Longrightarrow> sin (angleToSun s orbitDist) = sin (earthOrbitProgress s * pi * 2)"
  by (simp only: angleToSun_unit sin_atan2_unit) simp


lemma trig_three_halves: "cos (3 * pi / 2) = 0" "sin (3 * pi / 2) = - 1"
  using cos_3over2_pi sin_3over2_pi by simp_all

subsection \<open>The clock tick\<close>

text \<open>
  Claim C6. A tick has no failing branch and moves the state by fixed amounts. From a
  state in the canonical ranges, \<open>time\<close> grows by \<open>timeIncrement = 1/50\<close> and wraps by the
  remainder modulo \<open>24\<close> (that is, \<open>24\<close> is subtracted once the sum reaches \<open>24\<close>); the
  date moves on by exactly one day when \<open>time + timeIncrement \<ge> 24\<close> and is unchanged
  otherwise; \<open>earthOrbitProgress\<close> grows by \<open>timeIncrement / (24 * 365)\<close> and
  \<open>moonOrbitProgress\<close> by \<open>timeIncrement / (24 * 28)\<close>, each wrapping by the remainder
  modulo \<open>1\<close>.
\<close>

theorem tick_step:
  "inRange s \<Longrightarrow>
     time (tick s) = jsrem (time s + timeIncrement) 24 \<and>
     time (tick s) = (if time s + 1 / 50 < 24 then time s + 1 / 50 else time s + 1 / 50 - 24) \<and>
     date (tick s) = (if time s + 1 / 50 \<ge> 24 then date s + 86400000 else date s) \<and>
     earthOrbitProgress (tick s) = jsrem (earthOrbitProgress s + timeIncrement / (24 * 365)) 1 \<and>
     earthOrbitProgress (tick s) =
       (if earthOrbitProgress s + 1 / 438000 < 1 then earthOrbitProgress s + 1 / 438000
        else earthOrbitProgress s + 1 / 438000 - 1) \<and>
     moonOrbitProgress (tick s) = jsrem (moonOrbitProgress s + timeIncrement / (24 * 28)) 1 \<and>
     moonOrbitProgress (tick s) =
       (if moonOrbitProgress s + 1 / 33600 < 1 then moonOrbitProgress s + 1 / 33600
        else moonOrbitProgress s + 1 / 33600 - 1)"
proof -
  assume r: "inRange s"
  have t: "jsrem (time s + 1 / 50) 24 =
      (if time s + 1 / 50 < 24 then time s + 1 / 50 else time s + 1 / 50 - 24)"
    using r jsrem_small [of "time s + 1 / 50" 24] jsrem_once [of 24 "time s + 1 / 50"]
    by (simp add: inRange_def)
  have e: "jsrem (earthOrbitProgress s + 1 / 438000) 1 =
      (if earthOrbitProgress s + 1 / 438000 < 1 then earthOrbitProgress s + 1 / 438000
        else earthOrbitProgress s + 1 / 438000 - 1)"
    using r jsrem_small [of "earthOrbitProgress s + 1 / 438000" 1]
      jsrem_once [of 1 "earthOrbitProgress s + 1 / 438000"]
    by (simp add: inRange_def)
  have m: "jsrem (moonOrbitProgress s + 1 / 33600) 1 =
      (if moonOrbitProgress s + 1 / 33600 < 1 then moonOrbitProgress s + 1 / 33600
        else moonOrbitProgress s + 1 / 33600 - 1)"
    using r jsrem_small [of "moonOrbitProgress s + 1 / 33600" 1]
      jsrem_once [of 1 "moonOrbitProgress s + 1 / 33600"]
    by (simp add: inRange_def)
  show ?thesis
    using t e m
    by (simp add: tick_def Let_def timeIncrement_def earthIncrement_def moonIncrement_def
        nextDay_def msPerDay_def)
qed

text \<open>The tick that crosses midnight, from one fiftieth of an hour before it.\<close>

theorem tick_step_witness:
  "inRange \<lparr>time = 2399 / 100, date = 0, earthOrbitProgress = 0, moonOrbitProgress = 0\<rparr> \<and>
   time (tick \<lparr>time = 2399 / 100, date = 0, earthOrbitProgress = 0, moonOrbitProgress = 0\<rparr>)
     = 1 / 100 \<and>
   date (tick \<lparr>time = 2399 / 100, date = 0, earthOrbitProgress = 0, moonOrbitProgress = 0\<rparr>)
     = 86400000 \<and>
   earthOrbitProgress
     (tick \<lparr>time = 2399 / 100, date = 0, earthOrbitProgress = 0, moonOrbitProgress = 0\<rparr>)
     = 1 / 438000 \<and>
   moonOrbitProgress
     (tick \<lparr>time = 2399 / 100, date = 0, earthOrbitProgress = 0, moonOrbitProgress = 0\<rparr>)
     = 1 / 33600"
proof -
  have r: "inRange \<lparr>time = 2399 / 100, date = 0, earthOrbitProgress = 0, moonOrbitProgress = 0\<rparr>"
    by (simp add: inRange_def)
  show ?thesis using r tick_step [OF r] by simp
qed

subsection \<open>The canonical ranges\<close>

lemma frac_range: "0 \<le> frac (x::real) \<and> frac x < 1"
  by (simp add: frac_lt_1)

lemma tick_time_frac:
  "0 \<le> time s \<Longrightarrow> time (tick s) = 24 * frac ((time s + timeIncrement) / 24)"
  by (simp add: tick_def Let_def jsrem_nonneg_eq timeIncrement_def)

lemma tick_earth_frac:
  "0 \<le> earthOrbitProgress s \<Longrightarrow>
   earthOrbitProgress (tick s) = frac (earthOrbitProgress s + earthIncrement)"
  by (simp add: tick_def Let_def jsrem_one_nonneg earthIncrement_def timeIncrement_def)

lemma tick_moon_frac:
  "0 \<le> moonOrbitProgress s \<Longrightarrow>
   moonOrbitProgress (tick s) = frac (moonOrbitProgress s + moonIncrement)"
  by (simp add: tick_def Let_def jsrem_one_nonneg moonIncrement_def timeIncrement_def)

lemma tick_inRange: "inRange s \<Longrightarrow> inRange (tick s)"
proof -
  assume r: "inRange s"
  then have "0 \<le> time s" "0 \<le> earthOrbitProgress s" "0 \<le> moonOrbitProgress s"
    by (simp_all add: inRange_def)
  then have "time (tick s) = 24 * frac ((time s + timeIncrement) / 24)"
    "earthOrbitProgress (tick s) = frac (earthOrbitProgress s + earthIncrement)"
    "moonOrbitProgress (tick s) = frac (moonOrbitProgress s + moonIncrement)"
    by (simp_all add: tick_time_frac tick_earth_frac tick_moon_frac)
  then show ?thesis
    using frac_range [of "(time s + timeIncrement) / 24"]
      frac_range [of "earthOrbitProgress s + earthIncrement"]
      frac_range [of "moonOrbitProgress s + moonIncrement"]
    by (simp add: inRange_def)
qed

lemma handleDateChange_Some:
  "handleDateChange referenceDate (Some newDate) s =
   s\<lparr>date := newDate,
     earthOrbitProgress := frac (of_int (daysDiff referenceDate newDate) / 365),
     moonOrbitProgress := frac (of_int (daysDiff referenceDate newDate) / 28)\<rparr>"
  by (simp add: handleDateChange_def Let_def newEarthProgress_def newMoonProgress_def resync_frac)

lemma handleDateChange_inRange: "inRange s \<Longrightarrow> inRange (handleDateChange referenceDate parsed s)"
proof (cases parsed)
  case None
  assume "inRange s"
  with None show ?thesis by (simp add: handleDateChange_def)
next
  case (Some newDate)
  assume "inRange s"
  then show ?thesis
    using frac_range [of "of_int (daysDiff referenceDate newDate) / 365"]
      frac_range [of "of_int (daysDiff referenceDate newDate) / 28"]
    by (simp add: Some handleDateChange_Some inRange_def)
qed

lemma Number_cases: "Number f = None \<or> Number f = Some (of_nat (decimal f))"
  by (simp add: Number_def)

lemma element_Number:
  "element (map Number fs) i = Some x \<Longrightarrow> \<exists>n::nat. x = of_nat n"
  by (auto simp add: element_def Number_def split: if_splits)

lemma handleTimeChange_cases:
  "handleTimeChange v s = s \<or>
   (\<exists>h m::nat. h < 24 \<and> m < 60 \<and> handleTimeChange v s = s\<lparr>time := of_nat h + of_nat m / 60\<rparr>)"
proof -
  let ?parts = "map Number (splitOn (CHR '':'') (keepDigitsColon v))"
  show ?thesis
  proof (cases "element ?parts 0")
    case None
    then show ?thesis by (simp add: handleTimeChange_def Let_def)
  next
    case (Some hours)
    note h = this
    show ?thesis
    proof (cases "element ?parts 1")
      case None
      with h show ?thesis by (simp add: handleTimeChange_def Let_def)
    next
      case (Some minutes)
      from h obtain hn :: nat where hn: "hours = of_nat hn" using element_Number by blast
      from Some obtain mn :: nat where mn: "minutes = of_nat mn" using element_Number by blast
      show ?thesis
      proof (cases "hn < 24 \<and> mn < 60")
        case True
        with h Some hn mn have "handleTimeChange v s = s\<lparr>time := of_nat hn + of_nat mn / 60\<rparr>"
          by (simp add: handleTimeChange_def Let_def)
        with True show ?thesis by blast
      next
        case False
        with h Some hn mn have "handleTimeChange v s = s"
          by (auto simp add: handleTimeChange_def Let_def)
        then show ?thesis by simp
      qed
    qed
  qed
qed

lemma handleTimeChange_inRange: "inRange s \<Longrightarrow> inRange (handleTimeChange v s)"
proof -
  assume r: "inRange s"
  from handleTimeChange_cases [of v s] show ?thesis
  proof
    assume "handleTimeChange v s = s"
    with r show ?thesis by simp
  next
    assume "\<exists>h m::nat. h < 24 \<and> m < 60 \<and> handleTimeChange v s = s\<lparr>time := of_nat h + of_nat m / 60\<rparr>"
    then obtain h m :: nat where hm: "h < 24" "m < 60"
      and e: "handleTimeChange v s = s\<lparr>time := of_nat h + of_nat m / 60\<rparr>" by blast
    from hm have "h \<le> 23" by simp
    then have "real h \<le> 23" by simp
    moreover from hm have "real m / 60 < 1" by simp
    ultimately have "real h + real m / 60 < 24" by linarith
    moreover have "0 \<le> real h + real m / 60" by simp
    ultimately show ?thesis using r by (simp add: e inRange_def)
  qed
qed

subsection \<open>The time and date edits\<close>

lemma splitOn_not_Nil: "splitOn sep cs \<noteq> []"
  by (induction cs) (auto split: list.splits)

lemma splitOn_no_sep: "sep \<notin> set cs \<Longrightarrow> splitOn sep cs = [cs]"
  by (induction cs) auto

lemma keep_idem: "keepDigitsColon (keepDigitsColon v) = keepDigitsColon v"
  by (simp add: keepDigitsColon_def)

lemma keep_no_colon: "CHR '':'' \<notin> set v \<Longrightarrow> CHR '':'' \<notin> set (keepDigitsColon v)"
  by (simp add: keepDigitsColon_def)

lemma handleTimeChange_strip: "handleTimeChange v s = handleTimeChange (keepDigitsColon v) s"
  by (simp add: handleTimeChange_def keep_idem)

lemma handleTimeChange_no_colon:
  assumes "CHR '':'' \<notin> set v"
  shows "handleTimeChange v s = s"
proof -
  from assms have "splitOn (CHR '':'') (keepDigitsColon v) = [keepDigitsColon v]"
    by (intro splitOn_no_sep keep_no_colon)
  then show ?thesis
    by (simp add: handleTimeChange_def Let_def element_def split: option.splits)
qed

lemma decimal_eval: "decimal ''07'' = 7" "decimal ''30'' = 30" "decimal ''25'' = 25" "decimal ''1'' = 1"
  by (simp_all add: decimal_def digitVal_def)

lemma splitOn_fields: "f \<in> set (splitOn sep cs) \<Longrightarrow> set f \<subseteq> set cs - {sep}"
proof (induction cs arbitrary: f)
  case Nil
  then show ?case by simp
next
  case (Cons c cs)
  show ?case
  proof (cases "c = sep")
    case True
    with Cons show ?thesis by auto
  next
    case False
    obtain g gs where g: "splitOn sep cs = g # gs"
      using splitOn_not_Nil [of sep cs] by (cases "splitOn sep cs") auto
    with False Cons.prems have "f = c # g \<or> f \<in> set gs" by simp
    then show ?thesis
    proof
      assume "f = c # g"
      moreover have "set g \<subseteq> set cs - {sep}" using Cons.IH [of g] g by simp
      ultimately show ?thesis using False by auto
    next
      assume "f \<in> set gs"
      then have "set f \<subseteq> set cs - {sep}" using Cons.IH [of f] g by simp
      then show ?thesis by auto
    qed
  qed
qed

lemma stripped_fields_digits:
  assumes "f \<in> set (splitOn (CHR '':'') (keepDigitsColon v))"
  shows "list_all isDigit f"
proof -
  from assms have "set f \<subseteq> set (keepDigitsColon v) - {CHR '':''}" by (rule splitOn_fields)
  then show ?thesis by (auto simp add: list_all_iff keepDigitsColon_def)
qed

lemma handleTimeChange_two_fields:
  assumes f: "splitOn (CHR '':'') (keepDigitsColon v) = h # m # rest"
  shows "handleTimeChange v s =
         (if decimal h < 24 \<and> decimal m < 60
          then s\<lparr>time := of_nat (decimal h) + of_nat (decimal m) / 60\<rparr> else s)"
proof -
  have "list_all isDigit h" "list_all isDigit m"
    using stripped_fields_digits [of h v] stripped_fields_digits [of m v] f by simp_all
  then have "Number h = Some (of_nat (decimal h))" "Number m = Some (of_nat (decimal m))"
    by (simp_all add: Number_def)
  with f show ?thesis
    by (simp add: handleTimeChange_def Let_def element_def)
qed

lemma decimal_eval2: "decimal ''2'' = 2" "decimal ''75'' = 75"
  by (simp_all add: decimal_def digitVal_def)

text \<open>
  Claim C8, as the code has it. A time edit first deletes every character other than
  digits and colons, so it behaves on any text as on the text that is left. It reads
  the first two of the fields that the colons separate, \<open>H\<close> and \<open>M\<close>, and no further
  field. When both are non-empty, \<open>time\<close> becomes \<open>H + M / 60\<close> and no other field
  changes if \<open>H < 24\<close> and \<open>M < 60\<close>, and the state is unchanged otherwise. A text
  without a colon leaves the state unchanged. An unparseable date leaves the state
  unchanged; a parseable one sets \<open>date\<close> and both progress values and leaves \<open>time\<close>
  as it was.
\<close>

theorem edits_checked:
  "handleTimeChange v s = handleTimeChange (keepDigitsColon v) s \<and>
   (splitOn (CHR '':'') (keepDigitsColon v) = h # m # rest \<and> h \<noteq> [] \<and> m \<noteq> [] \<longrightarrow>
      handleTimeChange v s =
        (if decimal h < 24 \<and> decimal m < 60
         then s\<lparr>time := of_nat (decimal h) + of_nat (decimal m) / 60\<rparr> else s)) \<and>
   (CHR '':'' \<notin> set v \<longrightarrow> handleTimeChange v s = s) \<and>
   handleDateChange referenceDate None s = s \<and>
   handleDateChange referenceDate (Some newDate) s =
     s\<lparr>date := newDate,
       earthOrbitProgress := frac (of_int (daysDiff referenceDate newDate) / 365),
       moonOrbitProgress := frac (of_int (daysDiff referenceDate newDate) / 28)\<rparr>"
  using handleTimeChange_strip [of v s] handleTimeChange_two_fields [of v h m rest s]
    handleTimeChange_no_colon [of v s] handleDateChange_Some [of referenceDate newDate s]
  by (simp add: handleDateChange_def)

theorem edits_checked_witness:
  "handleTimeChange ''07:30'' (initialState 0) = (initialState 0)\<lparr>time := 15 / 2\<rparr> \<and>
   handleTimeChange ''25:30'' (initialState 0) = initialState 0 \<and>
   handleTimeChange ''0730'' (initialState 0) = initialState 0"
proof -
  have f1: "splitOn (CHR '':'') (keepDigitsColon ''07:30'') = ''07'' # ''30'' # [] \<and>
      ''07'' \<noteq> [] \<and> ''30'' \<noteq> []"
    by (simp add: keepDigitsColon_def isDigit_def)
  have f2: "splitOn (CHR '':'') (keepDigitsColon ''25:30'') = ''25'' # ''30'' # [] \<and>
      ''25'' \<noteq> [] \<and> ''30'' \<noteq> []"
    by (simp add: keepDigitsColon_def isDigit_def)
  have c: "CHR '':'' \<notin> set ''0730''" by simp
  note t1 = edits_checked [of "''07:30''" "initialState 0" "''07''" "''30''" "[]" 0 0]
  note t2 = edits_checked [of "''25:30''" "initialState 0" "''25''" "''30''" "[]" 0 0]
  note t3 = edits_checked [of "''0730''" "initialState 0" "''07''" "''30''" "[]" 0 0]
  from t1 f1 have "handleTimeChange ''07:30'' (initialState 0) =
        (if decimal ''07'' < 24 \<and> decimal ''30'' < 60
         then (initialState 0)\<lparr>time := of_nat (decimal ''07'') + of_nat (decimal ''30'') / 60\<rparr>
         else initialState 0)"
    by blast
  then have a: "handleTimeChange ''07:30'' (initialState 0) = (initialState 0)\<lparr>time := 15 / 2\<rparr>"
    by (simp add: decimal_eval)
  from t2 f2 have "handleTimeChange ''25:30'' (initialState 0) =
        (if decimal ''25'' < 24 \<and> decimal ''30'' < 60
         then (initialState 0)\<lparr>time := of_nat (decimal ''25'') + of_nat (decimal ''30'') / 60\<rparr>
         else initialState 0)"
    by blast
  then have b: "handleTimeChange ''25:30'' (initialState 0) = initialState 0"
    by (simp add: decimal_eval)
  from t3 c have d: "handleTimeChange ''0730'' (initialState 0) = initialState 0"
    by blast
  from a b d show ?thesis by simp
qed

text \<open>
  The claim as stated fails: \<^verbatim>\<open>1a:30\<close> has a non-numeric part and \<^verbatim>\<open>1:2:3\<close> is not
  of the form \<^verbatim>\<open>HH:MM\<close>, and the edits change \<open>time\<close> from \<open>18\<close> to \<open>1.5\<close> and to
  \<open>1 + 2 / 60\<close>.
\<close>

theorem time_edit_strips:
  "time (initialState 0) = 18 \<and>
   time (handleTimeChange ''1a:30'' (initialState 0)) = 3 / 2 \<and>
   time (handleTimeChange ''1:2:3'' (initialState 0)) = 31 / 30"
proof -
  have k: "splitOn (CHR '':'') (keepDigitsColon ''1a:30'') = [''1'', ''30'']"
    "splitOn (CHR '':'') (keepDigitsColon ''1:2:3'') = [''1'', ''2'', ''3'']"
    by (simp_all add: keepDigitsColon_def isDigit_def)
  have "handleTimeChange ''1a:30'' (initialState 0) = (initialState 0)\<lparr>time := 3 / 2\<rparr>"
    using handleTimeChange_two_fields [OF k(1), of "initialState 0"]
    by (simp add: decimal_eval)
  moreover have "handleTimeChange ''1:2:3'' (initialState 0) = (initialState 0)\<lparr>time := 31 / 30\<rparr>"
    using handleTimeChange_two_fields [OF k(2), of "initialState 0"]
    by (simp add: decimal_eval decimal_eval2)
  ultimately show ?thesis by (simp add: initialState_def)
qed

subsection \<open>The overlay and the scene\<close>



subsection \<open>Dragging\<close>

text \<open>
  Claim C10. A drag changes the dragged body's progress and nothing else: an Earth drag
  leaves \<open>time\<close>, \<open>date\<close> and \<open>moonOrbitProgress\<close> as they were, a Moon drag leaves
  \<open>time\<close>, \<open>date\<close> and \<open>earthOrbitProgress\<close> as they were, and no update at all is made
  when nothing is being dragged or the view is the miniature map.
\<close>

theorem drag_frame:
  "time (dragStep (Some earth) miniMap isMobile state point s) = time s \<and>
   date (dragStep (Some earth) miniMap isMobile state point s) = date s \<and>
   moonOrbitProgress (dragStep (Some earth) miniMap isMobile state point s) = moonOrbitProgress s \<and>
   time (dragStep (Some moon) miniMap isMobile state point s) = time s \<and>
   date (dragStep (Some moon) miniMap isMobile state point s) = date s \<and>
   earthOrbitProgress (dragStep (Some moon) miniMap isMobile state point s) = earthOrbitProgress s \<and>
   dragStep (Some earth) False isMobile state point s =
     s\<lparr>earthOrbitProgress := invertEarthDrag point\<rparr> \<and>
   dragStep (Some moon) False isMobile state point s =
     s\<lparr>moonOrbitProgress := invertMoonDrag state isMobile point\<rparr> \<and>
   dragStep None miniMap isMobile state point s = s \<and>
   dragStep dragTarget True isMobile state point s = s"
  by (cases dragTarget)
     (simp_all add: dragStep_def handleDragUpdate_def merge_def noFields_def)

text \<open>
  Earth is drawn at the angle \<open>-2\<pi>p\<close> and the inversion reads the angle as \<open>2\<pi>p\<close>:
  for every \<open>p\<close> strictly between \<open>0\<close> and \<open>1\<close> it returns \<open>1 - p\<close>.
\<close>

lemma earth_drag_reflects:
  assumes R: "0 < orbitDist" and p: "0 < earthOrbitProgress s" "earthOrbitProgress s < 1"
  shows "invertEarthDrag (earthX s orbitDist, earthZ s orbitDist) = 1 - earthOrbitProgress s"
proof -
  let ?t = "earthOrbitProgress s * pi * 2"
  have "atan2 (earthZ s orbitDist) (earthX s orbitDist)
      = atan2 (sin (- ?t) * orbitDist) (cos (- ?t) * orbitDist)"
    by (simp add: earthX_def earthZ_def)
  also have "\<dots> = atan2 (sin (- ?t)) (cos (- ?t))" using R by (rule atan2_scale)
  finally have a: "atan2 (earthZ s orbitDist) (earthX s orbitDist) = atan2 (sin (- ?t)) (cos (- ?t))" .
  obtain b where b: "sin b = sin (- ?t)" "cos b = cos (- ?t)" "atan2 (sin (- ?t)) (cos (- ?t)) = b"
    using atan2_principal [of "- ?t"] by blast
  from b(1,2) obtain n :: int where n: "b = - ?t + 2 * pi * of_int n"
    using sin_cos_eq_iff [of b "- ?t"] by auto
  have "b / (pi * 2) = of_int n - earthOrbitProgress s"
    unfolding n by (simp add: field_simps)
  then have "frac (b / (pi * 2)) = frac (of_int n - earthOrbitProgress s)" by simp
  also have "\<dots> = frac (- earthOrbitProgress s)"
  proof -
    have "of_int n - earthOrbitProgress s = - earthOrbitProgress s + of_int n" by simp
    then have "\<lfloor>of_int n - earthOrbitProgress s\<rfloor> = \<lfloor>- earthOrbitProgress s\<rfloor> + n"
      by (simp only: floor_add_int)
    then show ?thesis by (simp add: frac_def)
  qed
  also have "\<dots> = 1 - earthOrbitProgress s"
  proof -
    from p have "\<lfloor>- earthOrbitProgress s\<rfloor> = - 1" by linarith
    then show ?thesis by (simp add: frac_def)
  qed
  finally have "frac (b / (pi * 2)) = 1 - earthOrbitProgress s" .
  moreover have "invertEarthDrag (earthX s orbitDist, earthZ s orbitDist) = frac (b / (pi * 2))"
    by (simp only: invertEarthDrag_frac fst_conv snd_conv a b(3))
  ultimately show ?thesis by simp
qed

text \<open>
  Claim C2, at \<open>earthOrbitProgress = 1/4\<close> and radius \<open>350\<close>: Earth is drawn at
  \<open>(0, -350)\<close>, and inverting that point gives \<open>3/4\<close>, not \<open>1/4\<close>.
\<close>

theorem earth_drag_mirrors:
  "earthX ((initialState 0)\<lparr>earthOrbitProgress := 1 / 4\<rparr>) 350 = 0 \<and>
   earthZ ((initialState 0)\<lparr>earthOrbitProgress := 1 / 4\<rparr>) 350 = - 350 \<and>
   invertEarthDrag
     (earthX ((initialState 0)\<lparr>earthOrbitProgress := 1 / 4\<rparr>) 350,
      earthZ ((initialState 0)\<lparr>earthOrbitProgress := 1 / 4\<rparr>) 350) = 3 / 4"
  by (simp add: invertEarthDrag_def earthX_def earthZ_def atan2_def initialState_def)

text \<open>
  Claim C1, at \<open>earthOrbitProgress = 0\<close> and \<open>moonOrbitProgress = 1/4\<close> on the desktop
  radii: the Moon is drawn at \<open>(350, 110)\<close>, and inverting that point gives \<open>3/4\<close>, not
  \<open>1/4\<close>. At \<open>earthOrbitProgress = 1/4\<close> the scene has Earth at \<open>z = -350\<close> and the drag
  handler computes \<open>z = 350\<close>.
\<close>

theorem moon_drag_mirrors:
  "moonWorld ((initialState 0)\<lparr>moonOrbitProgress := 1 / 4\<rparr>) (EARTH_DIST False) (MOON_DIST False)
     = (350, 110) \<and>
   invertMoonDrag ((initialState 0)\<lparr>moonOrbitProgress := 1 / 4\<rparr>) False (350, 110) = 3 / 4 \<and>
   earthZ ((initialState 0)\<lparr>earthOrbitProgress := 1 / 4\<rparr>) (EARTH_DIST False) = - 350 \<and>
   dragEarthZ ((initialState 0)\<lparr>earthOrbitProgress := 1 / 4\<rparr>) False = 350"
proof -
  have a: "moonWorld ((initialState 0)\<lparr>moonOrbitProgress := 1 / 4\<rparr>) (EARTH_DIST False) (MOON_DIST False)
     = (350, 110)"
    by (simp add: moonWorld_def moonLocal_def moonAngle_def angleToSun_def earthX_def earthZ_def
        atan2_def EARTH_DIST_def MOON_DIST_def initialState_def trig_three_halves)
  have b: "invertMoonDrag ((initialState 0)\<lparr>moonOrbitProgress := 1 / 4\<rparr>) False (350, 110) = 3 / 4"
    by (simp add: invertMoonDrag_def dragEarthX_def dragEarthZ_def atan2_def EARTH_DIST_def
        initialState_def wrap_three_quarters)
  have c: "earthZ ((initialState 0)\<lparr>earthOrbitProgress := 1 / 4\<rparr>) (EARTH_DIST False) = - 350"
    by (simp add: earthZ_def EARTH_DIST_def initialState_def)
  have d: "dragEarthZ ((initialState 0)\<lparr>earthOrbitProgress := 1 / 4\<rparr>) False = 350"
    by (simp add: dragEarthZ_def EARTH_DIST_def initialState_def)
  from a b c d show ?thesis by simp
qed

subsection \<open>The phase names\<close>

text \<open>
  The normalisation is the fractional part, for negative progress too. The final branch
  is reached at \<open>0.97\<close> and nowhere else, and each of the other seven boundaries belongs
  to the bucket that starts there.
\<close>

lemma normalize_frac: "normalize p = frac p"
proof (cases "0 \<le> p")
  case True
  then have "jsrem p 1 = frac p" by (rule jsrem_one_nonneg)
  moreover have "0 \<le> frac p" "frac p < 1" by (simp_all add: frac_lt_1)
  ultimately show ?thesis using jsrem_once [of 1 "frac p + 1"] by (simp add: normalize_def)
next
  case False
  then have j: "jsrem p 1 = p - of_int \<lceil>p\<rceil>" by (simp add: jsrem_def trunc_def)
  show ?thesis
  proof (cases "p \<in> \<int>")
    case True
    then have "of_int \<lceil>p\<rceil> = p" "frac p = 0" by simp_all
    with j show ?thesis using jsrem_once [of 1 1] by (simp add: normalize_def)
  next
    case False
    then have "p \<noteq> of_int \<lfloor>p\<rfloor>" by (metis Ints_of_int)
    then have c: "\<lceil>p\<rceil> = \<lfloor>p\<rfloor> + 1" by (simp add: ceiling_altdef)
    have f: "0 < frac p" "frac p < 1" using False by (simp_all add: frac_lt_1)
    from j c have "jsrem p 1 + 1 = frac p" by (simp add: frac_def)
    with f show ?thesis using jsrem_small [of "frac p" 1] by (simp add: normalize_def)
  qed
qed

lemma unnamed_iff:
  "moonPhaseText s = Unnamed \<longleftrightarrow> frac (moonOrbitProgress s) = 97 / 100"
  "moonPhaseName s = Unnamed \<longleftrightarrow> frac (moonOrbitProgress s) = 97 / 100"
  by (auto simp add: moonPhaseText_def moonPhaseName_def normalize_frac Let_def)

lemma boundaries_named:
  "moonPhaseText (s\<lparr>moonOrbitProgress := 3 / 100\<rparr>) = WaxingCrescent"
  "moonPhaseText (s\<lparr>moonOrbitProgress := 22 / 100\<rparr>) = FirstQuarter"
  "moonPhaseText (s\<lparr>moonOrbitProgress := 28 / 100\<rparr>) = WaxingGibbous"
  "moonPhaseText (s\<lparr>moonOrbitProgress := 47 / 100\<rparr>) = FullMoon"
  "moonPhaseText (s\<lparr>moonOrbitProgress := 53 / 100\<rparr>) = WaningGibbous"
  "moonPhaseText (s\<lparr>moonOrbitProgress := 72 / 100\<rparr>) = LastQuarter"
  "moonPhaseText (s\<lparr>moonOrbitProgress := 78 / 100\<rparr>) = WaningCrescent"
  by (simp_all add: moonPhaseText_def normalize_frac frac_def)

lemma normalize_97: "normalize (97 / 100) = 97 / 100"
  by (simp add: normalize_def jsrem_def trunc_def)

text \<open>
  Claim C4, at \<open>moonOrbitProgress = 0.97\<close>: both classifiers fall through every bucket
  and return the string that names no phase.
\<close>

theorem phase_097_unnamed:
  "moonPhaseText ((initialState 0)\<lparr>moonOrbitProgress := 97 / 100\<rparr>) = Unnamed \<and>
   moonPhaseName ((initialState 0)\<lparr>moonOrbitProgress := 97 / 100\<rparr>) = Unnamed"
  by (simp add: moonPhaseText_def moonPhaseName_def normalize_97)

subsection \<open>The view marker\<close>

text \<open>
  At \<open>time = 0\<close> the marker's offset from Earth's centre is a negative multiple of
  Earth's position: it points from Earth to the Sun, which is at the origin.
\<close>

lemma marker_midnight:
  "0 < orbitDist \<Longrightarrow> time s = 0 \<Longrightarrow>
     userLocalX s orbitDist isMobile * orbitDist = - (markerDist isMobile * earthX s orbitDist) \<and>
     userLocalZ s orbitDist isMobile * orbitDist = - (markerDist isMobile * earthZ s orbitDist)"
  by (simp add: userLocalX_def userLocalZ_def timeAngle_def cos_angleToSun sin_angleToSun
      earthX_def earthZ_def)

text \<open>
  Claim C9, at \<open>time = 0\<close> and \<open>earthOrbitProgress = 0\<close>: Earth is at \<open>(350, 0)\<close> and the
  marker at \<open>(-30, 0)\<close> from Earth's centre, on the side of Earth that faces the Sun,
  while the home view has the Sun at its lowest and night.
\<close>

theorem marker_faces_sun_at_midnight:
  "earthX ((initialState 0)\<lparr>time := 0\<rparr>) 350 = 350 \<and>
   earthZ ((initialState 0)\<lparr>time := 0\<rparr>) 350 = 0 \<and>
   userLocalX ((initialState 0)\<lparr>time := 0\<rparr>) 350 False = - 30 \<and>
   userLocalZ ((initialState 0)\<lparr>time := 0\<rparr>) 350 False = 0 \<and>
   sunY ((initialState 0)\<lparr>time := 0\<rparr>) = - 350 \<and>
   \<not> isDay ((initialState 0)\<lparr>time := 0\<rparr>)"
  by (simp add: earthX_def earthZ_def userLocalX_def userLocalZ_def angleToSun_def atan2_def
      timeAngle_def markerDist_def initialState_def sunY_def sunAzimuth_def isDay_def)

subsection \<open>The accumulation in double precision\<close>

lemma excessBits_small: "n < 2 ^ 53 \<Longrightarrow> excessBits n = 0"
  by (simp add: excessBits.simps [of n])

lemma excessBits_range: "2 ^ (52 + s) \<le> n \<Longrightarrow> n < 2 ^ (53 + s) \<Longrightarrow> excessBits n = s"
proof (induction s arbitrary: n)
  case 0
  then show ?case by (simp add: excessBits_small)
next
  case (Suc s)
  from Suc.prems have "\<not> n < 2 ^ 53"
    using power_increasing [of 53 "52 + Suc s" "2::nat"] by simp
  then have u: "excessBits n = Suc (excessBits (n div 2))"
    by (simp add: excessBits.simps [of n])
  have p: "(2::nat) ^ (52 + Suc s) = 2 * 2 ^ (52 + s)" "(2::nat) ^ (53 + Suc s) = 2 * 2 ^ (53 + s)"
    by (simp_all add: power_add)
  from Suc.prems have "2 ^ (52 + s) \<le> n div 2" "n div 2 < 2 ^ (53 + s)"
    unfolding p by linarith+
  then have "excessBits (n div 2) = s" by (rule Suc.IH)
  with u show ?case by simp
qed

text \<open>The same on numerals, for the binades that occur below.\<close>

lemma excessBits_eval:
  "numeral k < (9007199254740992 :: nat) \<Longrightarrow> excessBits (numeral k) = 0"
  "(2305843009213693952 :: nat) \<le> numeral k \<Longrightarrow> numeral k < (4611686018427387904 :: nat) \<Longrightarrow>
     excessBits (numeral k) = 9"
  "(4611686018427387904 :: nat) \<le> numeral k \<Longrightarrow> numeral k < (9223372036854775808 :: nat) \<Longrightarrow>
     excessBits (numeral k) = 10"
  "(9223372036854775808 :: nat) \<le> numeral k \<Longrightarrow> numeral k < (18446744073709551616 :: nat) \<Longrightarrow>
     excessBits (numeral k) = 11"
  "(18446744073709551616 :: nat) \<le> numeral k \<Longrightarrow> numeral k < (36893488147419103232 :: nat) \<Longrightarrow>
     excessBits (numeral k) = 12"
  "(36893488147419103232 :: nat) \<le> numeral k \<Longrightarrow> numeral k < (73786976294838206464 :: nat) \<Longrightarrow>
     excessBits (numeral k) = 13"
  "(73786976294838206464 :: nat) \<le> numeral k \<Longrightarrow> numeral k < (147573952589676412928 :: nat) \<Longrightarrow>
     excessBits (numeral k) = 14"
  "(147573952589676412928 :: nat) \<le> numeral k \<Longrightarrow> numeral k < (295147905179352825856 :: nat) \<Longrightarrow>
     excessBits (numeral k) = 15"
  "(295147905179352825856 :: nat) \<le> numeral k \<Longrightarrow> numeral k < (590295810358705651712 :: nat) \<Longrightarrow>
     excessBits (numeral k) = 16"
  "(590295810358705651712 :: nat) \<le> numeral k \<Longrightarrow> numeral k < (1180591620717411303424 :: nat) \<Longrightarrow>
     excessBits (numeral k) = 17"
  "(1180591620717411303424 :: nat) \<le> numeral k \<Longrightarrow> numeral k < (2361183241434822606848 :: nat) \<Longrightarrow>
     excessBits (numeral k) = 18"
  "(2361183241434822606848 :: nat) \<le> numeral k \<Longrightarrow> numeral k < (4722366482869645213696 :: nat) \<Longrightarrow>
     excessBits (numeral k) = 19"
  "(4722366482869645213696 :: nat) \<le> numeral k \<Longrightarrow> numeral k < (9444732965739290427392 :: nat) \<Longrightarrow>
     excessBits (numeral k) = 20"
  "(9444732965739290427392 :: nat) \<le> numeral k \<Longrightarrow> numeral k < (18889465931478580854784 :: nat) \<Longrightarrow>
     excessBits (numeral k) = 21"
  "(18889465931478580854784 :: nat) \<le> numeral k \<Longrightarrow> numeral k < (37778931862957161709568 :: nat) \<Longrightarrow>
     excessBits (numeral k) = 22"
  by (rule excessBits_small, simp) ((rule excessBits_range, simp, simp)+)

lemma roundAt_pow2:
  "roundAt s a (Suc 0) =
     (let q = drop_bit s a; r = take_bit s a
      in (if 2 ^ s < 2 * r \<or> (2 * r = 2 ^ s \<and> odd q) then q + 1 else q) * 2 ^ s)"
  by (simp add: roundAt_def roundHalfEven_def drop_bit_eq_div take_bit_eq_mod Let_def)

lemma roundAt_numeral:
  "roundAt s (numeral a) (numeral b) = roundHalfEven (numeral a) (numeral b * 2 ^ s) * 2 ^ s"
  by (simp add: roundAt_def)

lemma roundHalfEven_numeral:
  "roundHalfEven (numeral a) (numeral b) =
     (let q = (numeral a :: nat) div numeral b; r = (numeral a :: nat) mod numeral b
      in if 2 * r > numeral b \<or> (2 * r = numeral b \<and> odd q) then q + 1 else q)"
  unfolding roundHalfEven_def by simp

text \<open>
  The rounding commutes with a change of unit by a power of two, as long as the
  quotient has its \<open>53\<close> bits: from there on a finer unit gives the same doubles.
\<close>

lemma excessBits_bounds:
  "2 ^ 52 \<le> n \<Longrightarrow> 2 ^ (52 + excessBits n) \<le> n \<and> n < 2 ^ (53 + excessBits n)"
proof (induction n rule: excessBits.induct)
  case (1 n)
  show ?case
  proof (cases "n < 2 ^ 53")
    case True
    then have "excessBits n = 0" by (rule excessBits_small)
    with True 1 show ?thesis by simp
  next
    case False
    then have u: "excessBits n = Suc (excessBits (n div 2))"
      by (simp add: excessBits.simps [of n])
    from False have "2 ^ 52 \<le> n div 2" by simp
    with False 1 have ih: "2 ^ (52 + excessBits (n div 2)) \<le> n div 2"
      "n div 2 < 2 ^ (53 + excessBits (n div 2))" by simp_all
    have p: "(2::nat) ^ (52 + Suc (excessBits (n div 2))) = 2 * 2 ^ (52 + excessBits (n div 2))"
      "(2::nat) ^ (53 + Suc (excessBits (n div 2))) = 2 * 2 ^ (53 + excessBits (n div 2))"
      by (simp_all add: power_add)
    from ih show ?thesis unfolding u p by linarith
  qed
qed

lemma roundHalfEven_scale: "0 < c \<Longrightarrow> roundHalfEven (c * a) (c * b) = roundHalfEven a b"
  by (simp add: roundHalfEven_def Let_def mod_mult_mult1)

lemma toDouble_scale:
  assumes b: "0 < b" and big: "2 ^ 52 \<le> a div b"
  shows "toDouble (2 ^ j * a) b = 2 ^ j * toDouble a b"
proof -
  let ?s = "excessBits (a div b)"
  from big have lo: "2 ^ (52 + ?s) \<le> a div b" and hi: "a div b < 2 ^ (53 + ?s)"
    using excessBits_bounds [of "a div b"] by simp_all
  have "2 ^ j * (a div b) * b \<le> 2 ^ j * a"
    by (simp add: mult.assoc)
  then have "2 ^ j * (a div b) \<le> (2 ^ j * a) div b"
    using b less_eq_div_iff_mult_less_eq [of b "2 ^ j * (a div b)" "2 ^ j * a"] by blast
  moreover have "2 ^ (52 + (?s + j)) = 2 ^ j * (2::nat) ^ (52 + ?s)"
    by (simp add: power_add)
  ultimately have lo': "2 ^ (52 + (?s + j)) \<le> (2 ^ j * a) div b"
    using lo mult_le_mono2 [of "2 ^ (52 + ?s)" "a div b" "2 ^ j"] by linarith
  from hi have "a div b + 1 \<le> 2 ^ (53 + ?s)" by simp
  then have "(a div b + 1) * b \<le> 2 ^ (53 + ?s) * b" by (rule mult_le_mono1)
  moreover have "a < (a div b + 1) * b"
    using b dividend_less_div_times [of b a] by (simp add: algebra_simps)
  ultimately have "a < 2 ^ (53 + ?s) * b" by linarith
  then have "2 ^ j * a < 2 ^ j * (2 ^ (53 + ?s) * b)" by simp
  then have "2 ^ j * a < 2 ^ (53 + (?s + j)) * b" by (simp add: power_add algebra_simps)
  then have hi': "(2 ^ j * a) div b < 2 ^ (53 + (?s + j))"
    by (rule less_mult_imp_div_less)
  from lo' hi' have e: "excessBits ((2 ^ j * a) div b) = ?s + j" by (rule excessBits_range)
  have "roundHalfEven (2 ^ j * a) (b * 2 ^ (?s + j)) = roundHalfEven (2 ^ j * a) (2 ^ j * (b * 2 ^ ?s))"
    by (simp add: power_add algebra_simps)
  also have "\<dots> = roundHalfEven a (b * 2 ^ ?s)" by (rule roundHalfEven_scale) simp
  finally show ?thesis by (simp add: toDouble_def roundAt_def e power_add)
qed

text \<open>The constants and single steps, by calculation.\<close>

lemma dTimeIncrement_value: "dTimeIncrement = 24178516392292583997440"
  by (simp add: dTimeIncrement_def toDouble_def unit_def excessBits_eval roundAt_numeral
      roundHalfEven_numeral)

lemma dEarthIncrement_value: "dEarthIncrement = 2760104610992304128"
  by (simp add: dEarthIncrement_def dDiv_def dTimeIncrement_value toDouble_def unit_def
      excessBits_eval roundAt_numeral roundHalfEven_numeral)

lemma dNewEarthProgress_1: "dNewEarthProgress 1 = 3312125533190764888064"
  by (simp add: dNewEarthProgress_def dDiv_def dRem1_def toDouble_def unit_def
      excessBits_eval roundAt_numeral roundHalfEven_numeral)

lemma dEarthStep_0: "dEarthStep 0 = 2760104610992304128"
  by (simp add: dEarthStep_def dEarthIncrement_value dAdd_def dRem1_def toDouble_def unit_def
      excessBits_eval roundAt_pow2)

lemma dEarthStep_numeral:
  "dEarthStep (numeral k) =
     (let z = roundAt (excessBits (numeral k + 2760104610992304128)) (numeral k + 2760104610992304128) (Suc 0)
      in if z < 1208925819614629174706176 then z else z mod 1208925819614629174706176)"
  by (simp add: dEarthStep_def dEarthIncrement_value dAdd_def dRem1_def toDouble_def unit_def
      Let_def)

lemma funpow_step: "(f ^^ numeral k) x = (f ^^ pred_numeral k) (f x)"
  by (simp add: numeral_eq_Suc funpow_swap1)

lemma funpow_chunk: "(f ^^ n) x = y \<Longrightarrow> (f ^^ m) y = z \<Longrightarrow> (f ^^ (m + n)) x = z"
  by (simp add: funpow_add)

lemmas dEarthStep_eval = funpow_step dEarthStep_0 dEarthStep_numeral excessBits_eval roundAt_pow2


text \<open>
  While the sums stay in one binade, with \<open>s\<close> excess bits, and the progress is a
  multiple of \<open>2\<^sup>s\<close>, a tick adds the increment rounded to a multiple of \<open>2\<^sup>s\<close>, unless
  the increment lies halfway between two of them.
\<close>

lemma roundAt_shift_add:
  assumes "2 * (i mod 2 ^ s) \<noteq> 2 ^ s"
  shows "roundAt s (2 ^ s * m + i) (Suc 0) = 2 ^ s * m + roundAt s i (Suc 0)"
  using assms by (simp add: roundAt_def roundHalfEven_def Let_def algebra_simps)

lemma roundAt_dvd: "2 ^ s dvd roundAt s a b"
  by (simp add: roundAt_def)

lemma step_linear:
  assumes d: "2 ^ s dvd x"
    and nt: "2 * (dEarthIncrement mod 2 ^ s) \<noteq> 2 ^ s"
    and lo: "2 ^ (52 + s) \<le> x + dEarthIncrement"
    and hi: "x + dEarthIncrement < 2 ^ (53 + s)"
    and c: "c = roundAt s dEarthIncrement (Suc 0)"
    and u: "x + c < unit"
  shows "dEarthStep x = x + c"
proof -
  from d obtain m where m: "x = 2 ^ s * m" by (auto simp add: dvd_def)
  from lo hi have e: "excessBits (x + dEarthIncrement) = s" by (rule excessBits_range)
  have "roundAt s (x + dEarthIncrement) (Suc 0) = x + c"
    unfolding m c using nt by (rule roundAt_shift_add)
  with e u show ?thesis
    by (simp add: dEarthStep_def dAdd_def dRem1_def toDouble_def)
qed

lemma run_linear:
  assumes d: "2 ^ s dvd x"
    and nt: "2 * (dEarthIncrement mod 2 ^ s) \<noteq> 2 ^ s"
    and lo: "2 ^ (52 + s) \<le> x + dEarthIncrement"
    and c: "c = roundAt s dEarthIncrement (Suc 0)"
  shows "x + n * c + dEarthIncrement < 2 ^ (53 + s) \<Longrightarrow> x + Suc n * c < unit \<Longrightarrow>
         (dEarthStep ^^ Suc n) x = x + Suc n * c"
proof (induction n)
  case 0
  with d nt lo c have "dEarthStep x = x + c" by (intro step_linear) simp_all
  then show ?case by simp
next
  case (Suc n)
  from Suc.prems have "x + n * c + dEarthIncrement < 2 ^ (53 + s)" "x + Suc n * c < unit"
    by simp_all
  then have ih: "(dEarthStep ^^ Suc n) x = x + Suc n * c" by (rule Suc.IH)
  have "2 ^ s dvd c" unfolding c by (rule roundAt_dvd)
  with d have d': "2 ^ s dvd x + Suc n * c" by simp
  from lo have lo': "2 ^ (52 + s) \<le> x + Suc n * c + dEarthIncrement" by simp
  from Suc.prems have u': "x + Suc n * c + c < unit" by simp
  from d' nt lo' Suc.prems(1) c u' have "dEarthStep (x + Suc n * c) = x + Suc n * c + c"
    by (rule step_linear)
  with ih show ?case by simp
qed

lemma run_linear_k:
  assumes "2 ^ s dvd x"
    and "2 * (dEarthIncrement mod 2 ^ s) \<noteq> 2 ^ s"
    and "2 ^ (52 + s) \<le> x + dEarthIncrement"
    and "c = roundAt s dEarthIncrement (Suc 0)"
    and "0 < k"
    and "x + (k - 1) * c + dEarthIncrement < 2 ^ (53 + s)"
    and "x + k * c < unit"
  shows "(dEarthStep ^^ k) x = x + k * c"
proof -
  from \<open>0 < k\<close> obtain n where k: "k = Suc n" by (cases k) simp_all
  from assms show ?thesis unfolding k by (intro run_linear) simp_all
qed

text \<open>
  The \<open>1200\<close> ticks of one day from progress \<open>0\<close>: runs within a binade by the lemma
  above, and by calculation the steps that enter a binade off its grid and the \<open>13\<close>
  steps of the binade in which the increment lies halfway.
\<close>

lemma seg_1: "(dEarthStep ^^ 1) 0 = 2760104610992304128"
proof -
  have d: "2 ^ 9 dvd (0::nat)" by simp
  have nt: "2 * (dEarthIncrement mod 2 ^ 9) \<noteq> 2 ^ 9"
    by (simp add: dEarthIncrement_value)
  have lo: "2 ^ (52 + 9) \<le> 0 + dEarthIncrement"
    by (simp add: dEarthIncrement_value)
  have c: "2760104610992304128 = roundAt 9 dEarthIncrement (Suc 0)"
    by (simp add: dEarthIncrement_value roundAt_pow2)
  have k: "(0::nat) < 1" by simp
  have hi: "0 + (1 - 1) * 2760104610992304128 + dEarthIncrement < 2 ^ (53 + 9)"
    by (simp add: dEarthIncrement_value)
  have u: "0 + 1 * 2760104610992304128 < unit"
    by (simp add: unit_def)
  from run_linear_k [OF d nt lo c k hi u] show ?thesis by simp
qed

lemma run_1: "(dEarthStep ^^ 1) 0 = 2760104610992304128"
  using seg_1 by simp

lemma seg_2: "(dEarthStep ^^ 2) 2760104610992304128 = 8280313832976912384"
proof -
  have d: "2 ^ 10 dvd (2760104610992304128::nat)" by simp
  have nt: "2 * (dEarthIncrement mod 2 ^ 10) \<noteq> 2 ^ 10"
    by (simp add: dEarthIncrement_value)
  have lo: "2 ^ (52 + 10) \<le> 2760104610992304128 + dEarthIncrement"
    by (simp add: dEarthIncrement_value)
  have c: "2760104610992304128 = roundAt 10 dEarthIncrement (Suc 0)"
    by (simp add: dEarthIncrement_value roundAt_pow2)
  have k: "(0::nat) < 2" by simp
  have hi: "2760104610992304128 + (2 - 1) * 2760104610992304128 + dEarthIncrement < 2 ^ (53 + 10)"
    by (simp add: dEarthIncrement_value)
  have u: "2760104610992304128 + 2 * 2760104610992304128 < unit"
    by (simp add: unit_def)
  from run_linear_k [OF d nt lo c k hi u] show ?thesis by simp
qed

lemma run_3: "(dEarthStep ^^ 3) 0 = 8280313832976912384"
  using funpow_chunk [OF run_1 seg_2] by simp

lemma seg_3: "(dEarthStep ^^ 3) 8280313832976912384 = 16560627665953824768"
proof -
  have d: "2 ^ 11 dvd (8280313832976912384::nat)" by simp
  have nt: "2 * (dEarthIncrement mod 2 ^ 11) \<noteq> 2 ^ 11"
    by (simp add: dEarthIncrement_value)
  have lo: "2 ^ (52 + 11) \<le> 8280313832976912384 + dEarthIncrement"
    by (simp add: dEarthIncrement_value)
  have c: "2760104610992304128 = roundAt 11 dEarthIncrement (Suc 0)"
    by (simp add: dEarthIncrement_value roundAt_pow2)
  have k: "(0::nat) < 3" by simp
  have hi: "8280313832976912384 + (3 - 1) * 2760104610992304128 + dEarthIncrement < 2 ^ (53 + 11)"
    by (simp add: dEarthIncrement_value)
  have u: "8280313832976912384 + 3 * 2760104610992304128 < unit"
    by (simp add: unit_def)
  from run_linear_k [OF d nt lo c k hi u] show ?thesis by simp
qed

lemma run_6: "(dEarthStep ^^ 6) 0 = 16560627665953824768"
  using funpow_chunk [OF run_3 seg_3] by simp

lemma seg_4: "(dEarthStep ^^ 7) 16560627665953824768 = 35881359942899953664"
proof -
  have d: "2 ^ 12 dvd (16560627665953824768::nat)" by simp
  have nt: "2 * (dEarthIncrement mod 2 ^ 12) \<noteq> 2 ^ 12"
    by (simp add: dEarthIncrement_value)
  have lo: "2 ^ (52 + 12) \<le> 16560627665953824768 + dEarthIncrement"
    by (simp add: dEarthIncrement_value)
  have c: "2760104610992304128 = roundAt 12 dEarthIncrement (Suc 0)"
    by (simp add: dEarthIncrement_value roundAt_pow2)
  have k: "(0::nat) < 7" by simp
  have hi: "16560627665953824768 + (7 - 1) * 2760104610992304128 + dEarthIncrement < 2 ^ (53 + 12)"
    by (simp add: dEarthIncrement_value)
  have u: "16560627665953824768 + 7 * 2760104610992304128 < unit"
    by (simp add: unit_def)
  from run_linear_k [OF d nt lo c k hi u] show ?thesis by simp
qed

lemma run_13: "(dEarthStep ^^ 13) 0 = 35881359942899953664"
  using funpow_chunk [OF run_6 seg_4] by simp

lemma seg_5: "(dEarthStep ^^ 13) 35881359942899953664 = 71762719885799948288"
  by (simp add: dEarthStep_eval)

lemma run_26: "(dEarthStep ^^ 26) 0 = 71762719885799948288"
  using funpow_chunk [OF run_13 seg_5] by simp

lemma seg_6: "(dEarthStep ^^ 27) 71762719885799948288 = 146285544382592270336"
proof -
  have d: "2 ^ 14 dvd (71762719885799948288::nat)" by simp
  have nt: "2 * (dEarthIncrement mod 2 ^ 14) \<noteq> 2 ^ 14"
    by (simp add: dEarthIncrement_value)
  have lo: "2 ^ (52 + 14) \<le> 71762719885799948288 + dEarthIncrement"
    by (simp add: dEarthIncrement_value)
  have c: "2760104610992308224 = roundAt 14 dEarthIncrement (Suc 0)"
    by (simp add: dEarthIncrement_value roundAt_pow2)
  have k: "(0::nat) < 27" by simp
  have hi: "71762719885799948288 + (27 - 1) * 2760104610992308224 + dEarthIncrement < 2 ^ (53 + 14)"
    by (simp add: dEarthIncrement_value)
  have u: "71762719885799948288 + 27 * 2760104610992308224 < unit"
    by (simp add: unit_def)
  from run_linear_k [OF d nt lo c k hi u] show ?thesis by simp
qed

lemma run_53: "(dEarthStep ^^ 53) 0 = 146285544382592270336"
  using funpow_chunk [OF run_26 seg_6] by simp

lemma seg_7: "(dEarthStep ^^ 1) 146285544382592270336 = 149045648993584578560"
  by (simp add: dEarthStep_eval)

lemma run_54: "(dEarthStep ^^ 54) 0 = 149045648993584578560"
  using funpow_chunk [OF run_53 seg_7] by simp

lemma seg_8: "(dEarthStep ^^ 52) 149045648993584578560 = 292571088765183754240"
proof -
  have d: "2 ^ 15 dvd (149045648993584578560::nat)" by simp
  have nt: "2 * (dEarthIncrement mod 2 ^ 15) \<noteq> 2 ^ 15"
    by (simp add: dEarthIncrement_value)
  have lo: "2 ^ (52 + 15) \<le> 149045648993584578560 + dEarthIncrement"
    by (simp add: dEarthIncrement_value)
  have c: "2760104610992291840 = roundAt 15 dEarthIncrement (Suc 0)"
    by (simp add: dEarthIncrement_value roundAt_pow2)
  have k: "(0::nat) < 52" by simp
  have hi: "149045648993584578560 + (52 - 1) * 2760104610992291840 + dEarthIncrement < 2 ^ (53 + 15)"
    by (simp add: dEarthIncrement_value)
  have u: "149045648993584578560 + 52 * 2760104610992291840 < unit"
    by (simp add: unit_def)
  from run_linear_k [OF d nt lo c k hi u] show ?thesis by simp
qed

lemma run_106: "(dEarthStep ^^ 106) 0 = 292571088765183754240"
  using funpow_chunk [OF run_54 seg_8] by simp

lemma seg_9: "(dEarthStep ^^ 1) 292571088765183754240 = 295331193376176078848"
  by (simp add: dEarthStep_eval)

lemma run_107: "(dEarthStep ^^ 107) 0 = 295331193376176078848"
  using funpow_chunk [OF run_106 seg_9] by simp

lemma seg_10: "(dEarthStep ^^ 106) 295331193376176078848 = 587902282141359013888"
proof -
  have d: "2 ^ 16 dvd (295331193376176078848::nat)" by simp
  have nt: "2 * (dEarthIncrement mod 2 ^ 16) \<noteq> 2 ^ 16"
    by (simp add: dEarthIncrement_value)
  have lo: "2 ^ (52 + 16) \<le> 295331193376176078848 + dEarthIncrement"
    by (simp add: dEarthIncrement_value)
  have c: "2760104610992291840 = roundAt 16 dEarthIncrement (Suc 0)"
    by (simp add: dEarthIncrement_value roundAt_pow2)
  have k: "(0::nat) < 106" by simp
  have hi: "295331193376176078848 + (106 - 1) * 2760104610992291840 + dEarthIncrement < 2 ^ (53 + 16)"
    by (simp add: dEarthIncrement_value)
  have u: "295331193376176078848 + 106 * 2760104610992291840 < unit"
    by (simp add: unit_def)
  from run_linear_k [OF d nt lo c k hi u] show ?thesis by simp
qed

lemma run_213: "(dEarthStep ^^ 213) 0 = 587902282141359013888"
  using funpow_chunk [OF run_107 seg_10] by simp

lemma seg_11: "(dEarthStep ^^ 214) 587902282141359013888 = 1178564668893723492352"
proof -
  have d: "2 ^ 17 dvd (587902282141359013888::nat)" by simp
  have nt: "2 * (dEarthIncrement mod 2 ^ 17) \<noteq> 2 ^ 17"
    by (simp add: dEarthIncrement_value)
  have lo: "2 ^ (52 + 17) \<le> 587902282141359013888 + dEarthIncrement"
    by (simp add: dEarthIncrement_value)
  have c: "2760104610992357376 = roundAt 17 dEarthIncrement (Suc 0)"
    by (simp add: dEarthIncrement_value roundAt_pow2)
  have k: "(0::nat) < 214" by simp
  have hi: "587902282141359013888 + (214 - 1) * 2760104610992357376 + dEarthIncrement < 2 ^ (53 + 17)"
    by (simp add: dEarthIncrement_value)
  have u: "587902282141359013888 + 214 * 2760104610992357376 < unit"
    by (simp add: unit_def)
  from run_linear_k [OF d nt lo c k hi u] show ?thesis by simp
qed

lemma run_427: "(dEarthStep ^^ 427) 0 = 1178564668893723492352"
  using funpow_chunk [OF run_213 seg_11] by simp

lemma seg_12: "(dEarthStep ^^ 1) 1178564668893723492352 = 1181324773504715849728"
  by (simp add: dEarthStep_eval)

lemma run_428: "(dEarthStep ^^ 428) 0 = 1181324773504715849728"
  using funpow_chunk [OF run_427 seg_12] by simp

lemma seg_13: "(dEarthStep ^^ 427) 1181324773504715849728 = 2359889442398396481536"
proof -
  have d: "2 ^ 18 dvd (1181324773504715849728::nat)" by simp
  have nt: "2 * (dEarthIncrement mod 2 ^ 18) \<noteq> 2 ^ 18"
    by (simp add: dEarthIncrement_value)
  have lo: "2 ^ (52 + 18) \<le> 1181324773504715849728 + dEarthIncrement"
    by (simp add: dEarthIncrement_value)
  have c: "2760104610992226304 = roundAt 18 dEarthIncrement (Suc 0)"
    by (simp add: dEarthIncrement_value roundAt_pow2)
  have k: "(0::nat) < 427" by simp
  have hi: "1181324773504715849728 + (427 - 1) * 2760104610992226304 + dEarthIncrement < 2 ^ (53 + 18)"
    by (simp add: dEarthIncrement_value)
  have u: "1181324773504715849728 + 427 * 2760104610992226304 < unit"
    by (simp add: unit_def)
  from run_linear_k [OF d nt lo c k hi u] show ?thesis by simp
qed

lemma run_855: "(dEarthStep ^^ 855) 0 = 2359889442398396481536"
  using funpow_chunk [OF run_428 seg_13] by simp

lemma seg_14: "(dEarthStep ^^ 1) 2359889442398396481536 = 2362649547009388707840"
  by (simp add: dEarthStep_eval)

lemma run_856: "(dEarthStep ^^ 856) 0 = 2362649547009388707840"
  using funpow_chunk [OF run_855 seg_14] by simp

lemma seg_15: "(dEarthStep ^^ 344) 2362649547009388707840 = 3312125533190804733952"
proof -
  have d: "2 ^ 19 dvd (2362649547009388707840::nat)" by simp
  have nt: "2 * (dEarthIncrement mod 2 ^ 19) \<noteq> 2 ^ 19"
    by (simp add: dEarthIncrement_value)
  have lo: "2 ^ (52 + 19) \<le> 2362649547009388707840 + dEarthIncrement"
    by (simp add: dEarthIncrement_value)
  have c: "2760104610992488448 = roundAt 19 dEarthIncrement (Suc 0)"
    by (simp add: dEarthIncrement_value roundAt_pow2)
  have k: "(0::nat) < 344" by simp
  have hi: "2362649547009388707840 + (344 - 1) * 2760104610992488448 + dEarthIncrement < 2 ^ (53 + 19)"
    by (simp add: dEarthIncrement_value)
  have u: "2362649547009388707840 + 344 * 2760104610992488448 < unit"
    by (simp add: unit_def)
  from run_linear_k [OF d nt lo c k hi u] show ?thesis by simp
qed

lemma run_1200: "(dEarthStep ^^ 1200) 0 = 3312125533190804733952"
  using funpow_chunk [OF run_856 seg_15] by simp

subsection \<open>The accumulated rounding error\<close>

text \<open>
  A rounding moves a value by at most half the spacing of the doubles around it.
\<close>

lemma roundHalfEven_error:
  assumes c: "0 < c"
  shows "2 * \<bar>int c * int (roundHalfEven a c) - int a\<bar> \<le> int c"
proof -
  define q r where "q = a div c" and "r = a mod c"
  have "a = c * q + r"
    unfolding q_def r_def by simp
  then have a: "int a = int c * int q + int r"
    by (metis of_nat_add of_nat_mult)
  have r: "r < c"
    unfolding r_def using c by simp
  show ?thesis
  proof (cases "2 * r > c \<or> (2 * r = c \<and> odd q)")
    case True
    then have "roundHalfEven a c = q + 1"
      by (simp add: roundHalfEven_def q_def r_def Let_def)
    then have "int c * int (roundHalfEven a c) - int a = int c - int r"
      using a by (simp add: algebra_simps)
    with True r show ?thesis by auto
  next
    case False
    then have "roundHalfEven a c = q"
      by (simp add: roundHalfEven_def q_def r_def Let_def)
    then have "int c * int (roundHalfEven a c) - int a = - int r"
      using a by simp
    with False show ?thesis by auto
  qed
qed

lemma toDouble_error:
  assumes b: "0 < b"
  shows "2 * \<bar>int b * int (toDouble a b) - int a\<bar> \<le> int b * 2 ^ excessBits (a div b)"
proof -
  let ?s = "excessBits (a div b)"
  have "0 < b * 2 ^ ?s" using b by simp
  then have "2 * \<bar>int (b * 2 ^ ?s) * int (roundHalfEven a (b * 2 ^ ?s)) - int a\<bar> \<le> int (b * 2 ^ ?s)"
    by (rule roundHalfEven_error)
  moreover have "int (b * 2 ^ ?s) * int (roundHalfEven a (b * 2 ^ ?s)) = int b * int (toDouble a b)"
    by (simp add: toDouble_def roundAt_def algebra_simps)
  moreover have "int (b * 2 ^ ?s) = int b * 2 ^ ?s" by simp
  ultimately show ?thesis by (simp only:)
qed

lemma excessBits_le:
  assumes n: "n < 2 ^ (53 + j)"
  shows "excessBits n \<le> j"
proof (cases "n < 2 ^ 52")
  case True
  then have "n < 2 ^ 53"
    using power_strict_increasing [of 52 53 "2::nat"] by simp
  then show ?thesis by (simp add: excessBits_small)
next
  case False
  then have "2 ^ (52 + excessBits n) \<le> n"
    using excessBits_bounds [of n] by simp
  from this n have "(2::nat) ^ (52 + excessBits n) < 2 ^ (53 + j)" by (rule le_less_trans)
  then have "52 + excessBits n < 53 + j"
    by (rule power_less_imp_less_exp [of "2::nat", rotated]) simp
  then show ?thesis by simp
qed

lemma add_error:
  assumes y: "y < 2 ^ (53 + j)"
  shows "2 * \<bar>int (toDouble y 1) - int y\<bar> \<le> 2 ^ j"
proof -
  have "2 * \<bar>int 1 * int (toDouble y 1) - int y\<bar> \<le> int 1 * 2 ^ excessBits (y div 1)"
    by (rule toDouble_error) simp
  then have t: "2 * \<bar>int (toDouble y 1) - int y\<bar> \<le> 2 ^ excessBits y" by simp
  have "excessBits y \<le> j" using y by (rule excessBits_le)
  then have "(2::int) ^ excessBits y \<le> 2 ^ j" by (intro power_increasing) simp_all
  with t show ?thesis by linarith
qed

lemma run_error:
  assumes I: "I < unit"
  shows "((\<lambda>x. dRem1 (dAdd x I)) ^^ n) 0 < unit \<and>
    (\<exists>k. \<bar>int (((\<lambda>x. dRem1 (dAdd x I)) ^^ n) 0) - int n * int I - k * int unit\<bar> \<le> int n * 2 ^ 27)"
proof (induction n)
  case 0
  show ?case by (simp add: unit_def)
next
  case (Suc n)
  let ?x = "((\<lambda>x. dRem1 (dAdd x I)) ^^ n) 0"
  let ?y = "toDouble (?x + I) 1"
  from Suc obtain k where x: "?x < unit"
    and k: "\<bar>int ?x - int n * int I - k * int unit\<bar> \<le> int n * 2 ^ 27" by blast
  have s: "((\<lambda>x. dRem1 (dAdd x I)) ^^ Suc n) 0 = ?y mod unit"
    by (simp add: dRem1_def dAdd_def)
  from x I have "?x + I < 2 ^ (53 + 28)" by (simp add: unit_def)
  then have "2 * \<bar>int ?y - int (?x + I)\<bar> \<le> 2 ^ 28" by (rule add_error)
  then have e: "\<bar>int ?y - int ?x - int I\<bar> \<le> 2 ^ 27" by simp
  have "?y = unit * (?y div unit) + ?y mod unit" by simp
  then have "int ?y = int unit * int (?y div unit) + int (?y mod unit)"
    by (metis of_nat_add of_nat_mult)
  then have m: "int (?y mod unit) = int ?y - int (?y div unit) * int unit" by simp
  have "\<bar>int (?y mod unit) - int (Suc n) * int I - (k - int (?y div unit)) * int unit\<bar>
      = \<bar>(int ?x - int n * int I - k * int unit) + (int ?y - int ?x - int I)\<bar>"
    unfolding m by (simp add: algebra_simps)
  also have "\<dots> \<le> int n * 2 ^ 27 + 2 ^ 27" using k e by linarith
  also have "\<dots> = int (Suc n) * 2 ^ 27" by (simp add: algebra_simps)
  finally have "\<exists>k. \<bar>int (?y mod unit) - int (Suc n) * int I - k * int unit\<bar> \<le> int (Suc n) * 2 ^ 27"
    by blast
  moreover have "?y mod unit < unit" by (simp add: unit_def)
  ultimately show ?case unfolding s by blast
qed

lemma circDist_le:
  assumes e: "\<bar>int a - int r - k * int unit\<bar> \<le> B"
  shows "circDist a r \<le> B"
proof -
  define z where "z = int a - int r - k * int unit"
  have u: "0 < int unit" by (simp add: unit_def)
  have "int a - int r = z + k * int unit" unfolding z_def by simp
  then have p: "(int a - int r) mod int unit = z mod int unit"
    by (simp only: mod_mult_self1)
  have "int r - int a = - z + (- k) * int unit" unfolding z_def by simp
  then have n: "(int r - int a) mod int unit = (- z) mod int unit"
    by (simp only: mod_mult_self1)
  show ?thesis
  proof (cases "0 \<le> z")
    case True
    then have "z mod int unit \<le> z" by (rule zmod_le_nonneg_dividend)
    with e p show ?thesis unfolding circDist_def z_def by linarith
  next
    case False
    then have "(- z) mod int unit \<le> - z" by (intro zmod_le_nonneg_dividend) simp
    with e n show ?thesis unfolding circDist_def z_def by linarith
  qed
qed

text \<open>
  The resynchronisation divides once; over \<open>d\<close> days its error and those of the
  \<open>1200 d\<close> sums stay below \<open>d\<close> times \<open>2\<^sup>3\<^sup>8\<close> units.
\<close>

lemma dDiv_zero: "dDiv 0 b = 0"
  by (simp add: dDiv_def toDouble_def roundAt_def roundHalfEven_def)

lemma quotient_error:
  assumes P: "0 < P"
  shows "2 * \<bar>int P * int (dDiv (d * unit) (P * unit)) - int d * int unit\<bar>
    \<le> int P * 2 ^ excessBits ((d * unit) div P)"
proof -
  let ?q = "dDiv (d * unit) (P * unit)"
  have u: "0 < unit" by (simp add: unit_def)
  have n: "(d * unit * unit) div (P * unit) = (d * unit) div P"
    using u by simp
  have "2 * \<bar>int (P * unit) * int (toDouble (d * unit * unit) (P * unit)) - int (d * unit * unit)\<bar>
      \<le> int (P * unit) * 2 ^ excessBits ((d * unit * unit) div (P * unit))"
    by (rule toDouble_error) (simp add: P u)
  then have "2 * \<bar>int (P * unit) * int ?q - int (d * unit * unit)\<bar>
      \<le> int (P * unit) * 2 ^ excessBits ((d * unit) div P)"
    unfolding n dDiv_def .
  moreover have "int (P * unit) * int ?q - int (d * unit * unit)
      = int unit * (int P * int ?q - int d * int unit)"
    by (simp add: algebra_simps)
  moreover have "int (P * unit) * 2 ^ excessBits ((d * unit) div P)
      = int unit * (int P * 2 ^ excessBits ((d * unit) div P))"
    by simp
  ultimately have "2 * \<bar>int unit * (int P * int ?q - int d * int unit)\<bar>
      \<le> int unit * (int P * 2 ^ excessBits ((d * unit) div P))"
    by (simp only:)
  then have "int unit * (2 * \<bar>int P * int ?q - int d * int unit\<bar>)
      \<le> int unit * (int P * 2 ^ excessBits ((d * unit) div P))"
    by (simp add: abs_mult)
  then show ?thesis
    using u by (simp only: mult_le_cancel_left_pos of_nat_0_less_iff)
qed

lemma excessBits_day:
  assumes d: "0 < d"
  shows "(2::nat) ^ excessBits ((d * unit) div P) \<le> d * 2 ^ 28"
proof (cases "(d * unit) div P < 2 ^ 52")
  case True
  then have "(d * unit) div P < 2 ^ 53"
    using power_strict_increasing [of 52 53 "2::nat"] by simp
  then have "excessBits ((d * unit) div P) = 0" by (rule excessBits_small)
  with d show ?thesis by simp
next
  case False
  let ?s = "excessBits ((d * unit) div P)"
  from False have "2 ^ (52 + ?s) \<le> (d * unit) div P"
    using excessBits_bounds [of "(d * unit) div P"] by simp
  also have "\<dots> \<le> d * unit" by (rule div_le_dividend)
  finally have "(2::nat) ^ 52 * 2 ^ ?s \<le> 2 ^ 52 * (d * 2 ^ 28)"
    by (simp add: power_add unit_def)
  then show ?thesis by (simp only: mult_le_cancel1) simp
qed

lemma resync_error:
  assumes P: "0 < P" and d: "0 < d"
  shows "\<bar>int P * int (dDiv (d * unit) (P * unit)) - int d * int unit\<bar> \<le> int P * (int d * 2 ^ 27)"
proof -
  have "int ((2::nat) ^ excessBits ((d * unit) div P)) \<le> int (d * 2 ^ 28)"
    using excessBits_day [OF d] by (simp only: of_nat_le_iff)
  then have "(2::int) ^ excessBits ((d * unit) div P) \<le> int d * 2 ^ 28" by simp
  then have "int P * 2 ^ excessBits ((d * unit) div P) \<le> int P * (int d * 2 ^ 28)"
    by (rule mult_left_mono) simp
  with quotient_error [OF P, of d] show ?thesis by simp
qed

lemma agree_error:
  assumes P: "0 < P" and I: "I < unit"
    and D: "\<bar>1200 * int P * int I - int unit\<bar> \<le> int P * 2 ^ 27"
  shows "circDist (((\<lambda>x. dRem1 (dAdd x I)) ^^ (1200 * d)) 0) (dRem1 (dDiv (d * unit) (P * unit)))
    \<le> int d * 2 ^ 38"
proof (cases "d = 0")
  case True
  then show ?thesis by (simp add: dDiv_zero dRem1_def circDist_def)
next
  case False
  then have d: "0 < d" by simp
  let ?a = "((\<lambda>x. dRem1 (dAdd x I)) ^^ (1200 * d)) 0"
  let ?q = "dDiv (d * unit) (P * unit)"
  from run_error [OF I, of "1200 * d"] obtain k
    where k: "\<bar>int ?a - int (1200 * d) * int I - k * int unit\<bar> \<le> int (1200 * d) * 2 ^ 27"
    by blast
  define E where "E = int ?a - int (1200 * d) * int I - k * int unit"
  define F where "F = int P * int ?q - int d * int unit"
  define G where "G = 1200 * int P * int I - int unit"
  have E: "\<bar>E\<bar> \<le> 1200 * (int d * 2 ^ 27)" using k unfolding E_def by simp
  have F: "\<bar>F\<bar> \<le> int P * (int d * 2 ^ 27)" unfolding F_def using P d by (rule resync_error)
  have G: "\<bar>G\<bar> \<le> int P * 2 ^ 27" unfolding G_def by (rule D)
  have p: "0 < int P" using P by simp
  have "int P * (int ?a - int ?q - k * int unit) = int d * G + int P * E - F"
    unfolding E_def F_def G_def by (simp add: algebra_simps)
  then have "\<bar>int P * (int ?a - int ?q - k * int unit)\<bar> \<le> \<bar>int d * G\<bar> + \<bar>int P * E\<bar> + \<bar>F\<bar>"
    by linarith
  also have "\<bar>int d * G\<bar> = int d * \<bar>G\<bar>" by (simp add: abs_mult)
  also have "\<bar>int P * E\<bar> = int P * \<bar>E\<bar>" by (simp add: abs_mult)
  finally have t: "\<bar>int P * (int ?a - int ?q - k * int unit)\<bar> \<le> int d * \<bar>G\<bar> + int P * \<bar>E\<bar> + \<bar>F\<bar>" .
  have "int d * \<bar>G\<bar> \<le> int d * (int P * 2 ^ 27)"
    using G by (rule mult_left_mono) simp
  moreover have "int P * \<bar>E\<bar> \<le> int P * (1200 * (int d * 2 ^ 27))"
    using E by (rule mult_left_mono) simp
  ultimately have "\<bar>int P * (int ?a - int ?q - k * int unit)\<bar>
      \<le> int d * (int P * 2 ^ 27) + int P * (1200 * (int d * 2 ^ 27)) + int P * (int d * 2 ^ 27)"
    using t F by linarith
  also have "\<dots> = int P * (int d * (1202 * 2 ^ 27))" by (simp add: algebra_simps)
  finally have "int P * \<bar>int ?a - int ?q - k * int unit\<bar> \<le> int P * (int d * (1202 * 2 ^ 27))"
    using p by (simp add: abs_mult)
  then have b: "\<bar>int ?a - int ?q - k * int unit\<bar> \<le> int d * (1202 * 2 ^ 27)"
    using p by (simp only: mult_le_cancel_left_pos)
  have "int d * (1202 * 2 ^ 27) \<le> int d * 2 ^ 38"
    by (rule mult_left_mono) simp_all
  with b have b': "\<bar>int ?a - int ?q - k * int unit\<bar> \<le> int d * 2 ^ 38" by linarith
  have "?q = unit * (?q div unit) + ?q mod unit" by simp
  then have "int ?q = int unit * int (?q div unit) + int (?q mod unit)"
    by (metis of_nat_add of_nat_mult)
  then have "int ?a - int (dRem1 ?q) - (k + int (?q div unit)) * int unit
      = int ?a - int ?q - k * int unit"
    unfolding dRem1_def by (simp add: algebra_simps)
  with b' have "\<bar>int ?a - int (dRem1 ?q) - (k + int (?q div unit)) * int unit\<bar> \<le> int d * 2 ^ 38"
    by simp
  then show ?thesis by (rule circDist_le)
qed

text \<open>
  A remainder of the quotient is zero or more than \<open>2\<^sup>2\<^sup>6\<close> units away from \<open>0\<close> and
  from \<open>1\<close>, so that the sum \<open>1 - m\<close> of the wrap does not round to \<open>1\<close>.
\<close>

lemma remainder_clear:
  assumes P: "0 < P" and small: "P * 2 ^ 28 \<le> unit"
  shows "dRem1 (dDiv (dd * unit) (P * unit)) = 0 \<or>
    (2 ^ 26 < dRem1 (dDiv (dd * unit) (P * unit)) \<and>
     dRem1 (dDiv (dd * unit) (P * unit)) + 2 ^ 26 < unit)"
proof (cases "dd < P")
  case True
  let ?q = "dDiv (dd * unit) (P * unit)"
  show ?thesis
  proof (cases "dd = 0")
    case True
    then show ?thesis by (simp add: dDiv_zero dRem1_def)
  next
    case False
    have "dd * unit < P * unit" using True by (simp add: unit_def)
    then have "(dd * unit) div P < unit"
      using P by (simp add: less_mult_imp_div_less mult.commute)
    then have "(dd * unit) div P < 2 ^ (53 + 27)" by (simp add: unit_def)
    then have "excessBits ((dd * unit) div P) \<le> 27" by (rule excessBits_le)
    then have "(2::int) ^ excessBits ((dd * unit) div P) \<le> 2 ^ 27"
      by (intro power_increasing) simp_all
    then have "int P * 2 ^ excessBits ((dd * unit) div P) \<le> int P * 2 ^ 27"
      by (rule mult_left_mono) simp
    with quotient_error [OF P, of dd]
    have e: "\<bar>int P * int ?q - int dd * int unit\<bar> \<le> int P * 2 ^ 26" by simp
    have s: "int P * 2 ^ 28 \<le> int unit"
      using small by (metis of_nat_le_iff of_nat_mult of_nat_numeral of_nat_power)
    have p: "0 < int P" using P by simp
    have s': "4 * (int P * 2 ^ 26) \<le> int unit" using s by simp
    have x: "0 < int P * 2 ^ 26" using p by simp
    from False have "1 * int unit \<le> int dd * int unit"
      by (intro mult_right_mono) simp_all
    with e s' x have "int P * 2 ^ 26 < int P * int ?q" by linarith
    then have lo: "2 ^ 26 < int ?q" using p by (simp only: mult_less_cancel_left_pos)
    from True have "int dd * int unit \<le> (int P - 1) * int unit"
      by (intro mult_right_mono) simp_all
    then have "int dd * int unit \<le> int P * int unit - int unit" by (simp add: algebra_simps)
    with e s' x have "int P * int ?q + int P * 2 ^ 26 < int P * int unit" by linarith
    then have "int P * (int ?q + 2 ^ 26) < int P * int unit" by (simp add: algebra_simps)
    then have hi: "int ?q + 2 ^ 26 < int unit" using p by (simp only: mult_less_cancel_left_pos)
    from lo have "int (2 ^ 26) < int ?q" by simp
    then have lo': "2 ^ 26 < ?q" by (simp only: of_nat_less_iff)
    from hi have "int (?q + 2 ^ 26) < int unit" by simp
    then have hi': "?q + 2 ^ 26 < unit" by (simp only: of_nat_less_iff)
    then have "?q mod unit = ?q" by simp
    with lo' hi' show ?thesis by (simp add: dRem1_def)
  qed
next
  case False
  let ?n = "(dd * unit * unit) div (P * unit)"
  let ?q = "dDiv (dd * unit) (P * unit)"
  let ?m = "dRem1 ?q"
  have u: "0 < unit" by (simp add: unit_def)
  have n: "?n = (dd * unit) div P" using u by simp
  from False have "unit * P \<le> dd * unit" by simp
  then have "unit \<le> (dd * unit) div P"
    using P less_eq_div_iff_mult_less_eq [of P unit "dd * unit"] by blast
  then have big: "2 ^ 80 \<le> ?n" unfolding n by (simp add: unit_def)
  have "(2::nat) ^ 52 \<le> 2 ^ 80" by simp
  from this big have "2 ^ 52 \<le> ?n" by (rule le_trans)
  then have "?n < 2 ^ (53 + excessBits ?n)"
    using excessBits_bounds [of ?n] by blast
  with big have "(2::nat) ^ 80 < 2 ^ (53 + excessBits ?n)" by (rule le_less_trans)
  then have "80 < 53 + excessBits ?n"
    by (rule power_less_imp_less_exp [of "2::nat", rotated]) simp
  then have "28 \<le> excessBits ?n" by simp
  then have "(2::nat) ^ 28 dvd 2 ^ excessBits ?n" by (rule le_imp_power_dvd)
  moreover have "2 ^ excessBits ?n dvd ?q"
    unfolding dDiv_def toDouble_def by (rule roundAt_dvd)
  ultimately have q: "2 ^ 28 dvd ?q" by (rule dvd_trans)
  have du: "(2::nat) ^ 28 dvd unit" unfolding unit_def by (rule le_imp_power_dvd) simp
  from q du have dm: "2 ^ 28 dvd ?m" unfolding dRem1_def by (simp add: dvd_mod)
  have mu: "?m < unit" unfolding dRem1_def using u by simp
  show ?thesis
  proof (cases "?m = 0")
    case True
    then show ?thesis by blast
  next
    case False
    then have "0 < ?m" by simp
    with dm have lo: "2 ^ 28 \<le> ?m" by (rule dvd_imp_le)
    from du dm have "2 ^ 28 dvd unit - ?m" by (rule dvd_diff_nat)
    moreover from mu have "0 < unit - ?m" by simp
    ultimately have "2 ^ 28 \<le> unit - ?m" by (rule dvd_imp_le)
    with lo mu show ?thesis by simp
  qed
qed

lemma wrapNegative_range:
  assumes P: "0 < P" and small: "P * 2 ^ 28 \<le> unit"
  shows "dWrapNegative (dRem1 (dDiv (dd * unit) (P * unit))) < unit"
proof -
  let ?m = "dRem1 (dDiv (dd * unit) (P * unit))"
  show ?thesis
  proof (cases "?m = 0")
    case True
    then show ?thesis by (simp add: dWrapNegative_def unit_def)
  next
    case False
    with remainder_clear [OF P small, of dd]
    have 2: "2 ^ 26 < ?m" "?m + 2 ^ 26 < unit" by simp_all
    have "unit - ?m < 2 ^ (53 + 27)" using 2 by (simp add: unit_def)
    then have "2 * \<bar>int (toDouble (unit - ?m) 1) - int (unit - ?m)\<bar> \<le> 2 ^ 27" by (rule add_error)
    then have "int (toDouble (unit - ?m) 1) \<le> int (unit - ?m) + 2 ^ 26" by simp
    then have "int (toDouble (unit - ?m) 1) \<le> int (unit - ?m + 2 ^ 26)" by simp
    then have "toDouble (unit - ?m) 1 \<le> unit - ?m + 2 ^ 26" by (simp only: of_nat_le_iff)
    with 2 have "toDouble (unit - ?m) 1 < unit" by simp
    with 2 show ?thesis by (simp add: dWrapNegative_def)
  qed
qed

lemma dMoonIncrement_value: "dMoonIncrement = 35979935107578249216"
  by (simp add: dMoonIncrement_def dDiv_def dTimeIncrement_value toDouble_def unit_def
      excessBits_eval roundAt_numeral roundHalfEven_numeral)

lemma dNewEarthProgress_182: "dNewEarthProgress 182 = 602806847040719211724800"
proof -
  have e: "excessBits 602806847040719204921983 = 26"
    by (rule excessBits_range) simp_all
  show ?thesis
    by (simp add: dNewEarthProgress_def dRem1_def dDiv_def toDouble_def unit_def e
      roundAt_numeral roundHalfEven_numeral)
qed

lemma earth_agrees:
  "circDist ((dEarthStep ^^ (1200 * d)) 0) (dNewEarthProgress d) \<le> int d * 2 ^ 38"
proof -
  have f: "dEarthStep = (\<lambda>x. dRem1 (dAdd x dEarthIncrement))"
    by (rule ext) (simp add: dEarthStep_def)
  have "circDist (((\<lambda>x. dRem1 (dAdd x dEarthIncrement)) ^^ (1200 * d)) 0)
      (dRem1 (dDiv (d * unit) (365 * unit))) \<le> int d * 2 ^ 38"
    by (rule agree_error) (simp_all add: dEarthIncrement_value unit_def)
  then show ?thesis unfolding f dNewEarthProgress_def .
qed

lemma moon_agrees:
  "circDist ((dMoonStep ^^ (1200 * d)) 0) (dNewMoonProgress d) \<le> int d * 2 ^ 38"
proof -
  have f: "dMoonStep = (\<lambda>x. dRem1 (dAdd x dMoonIncrement))"
    by (rule ext) (simp add: dMoonStep_def)
  have "circDist (((\<lambda>x. dRem1 (dAdd x dMoonIncrement)) ^^ (1200 * d)) 0)
      (dRem1 (dDiv (d * unit) (28 * unit))) \<le> int d * 2 ^ 38"
    by (rule agree_error) (simp_all add: dMoonIncrement_value unit_def)
  then show ?thesis unfolding f dNewMoonProgress_def .
qed

lemma daysDiff_exact:
  "daysDiff referenceDate (referenceDate + int d * msPerDay) = int d"
  "daysDiff referenceDate (referenceDate - int d * msPerDay) = - int d"
  by (simp_all add: daysDiff_def msPerDay_def)

text \<open>
  Claim C3, as the code has it: the two paths agree up to rounding, not bit for bit.
  From the progress \<open>0\<close> of the reference date, the \<open>1200 d\<close> ticks of \<open>d\<close> days, \<open>1200\<close>
  ticks of \<^verbatim>\<open>0.02\<close> hours a day, leave \<open>earthOrbitProgress\<close> and \<open>moonOrbitProgress\<close>
  within \<open>d\<close> times \<open>2\<^sup>3\<^sup>8\<close> units, that is \<open>d\<close> times \<open>2\<^sup>-\<^sup>4\<^sup>2\<close>, of the values that the
  resynchronisation to \<open>d\<close> days after the reference date stores, the distance taken
  around the orbit. The resynchronisation stores values in \<open>[0, 1)\<close>, for \<open>d\<close> days after
  the reference date and for \<open>d\<close> days before it, where the negative remainder is wrapped
  forward. The time value exactly \<open>d\<close> days after or before that of the reference date
  has the day count \<open>d\<close> or \<open>- d\<close>. For \<open>182\<close> days the value stored is the double
  \<^verbatim>\<open>0.4986301369863014\<close>, within \<open>2\<^sup>-\<^sup>5\<^sup>4\<close> of \<open>182 / 365\<close>.
\<close>

theorem resync_matches_ticks:
  "circDist ((dEarthStep ^^ (1200 * d)) 0) (dNewEarthProgress d) \<le> int d * 2 ^ 38 \<and>
   circDist ((dMoonStep ^^ (1200 * d)) 0) (dNewMoonProgress d) \<le> int d * 2 ^ 38 \<and>
   dNewEarthProgress d < unit \<and> dNewMoonProgress d < unit \<and>
   dNewEarthProgressBefore d < unit \<and> dNewMoonProgressBefore d < unit \<and>
   daysDiff referenceDate (referenceDate + int d * msPerDay) = int d \<and>
   daysDiff referenceDate (referenceDate - int d * msPerDay) = - int d \<and>
   dNewEarthProgress 182 = 602806847040719211724800 \<and>
   \<bar>365 * int (dNewEarthProgress 182) - 182 * int unit\<bar> \<le> 365 * 2 ^ 26"
proof -
  have "dNewEarthProgress d < unit" "dNewMoonProgress d < unit"
    by (simp_all add: dNewEarthProgress_def dNewMoonProgress_def dRem1_def unit_def)
  moreover have "dNewEarthProgressBefore d < unit"
    unfolding dNewEarthProgressBefore_def by (rule wrapNegative_range) (simp_all add: unit_def)
  moreover have "dNewMoonProgressBefore d < unit"
    unfolding dNewMoonProgressBefore_def by (rule wrapNegative_range) (simp_all add: unit_def)
  moreover have "\<bar>365 * int (dNewEarthProgress 182) - 182 * int unit\<bar> \<le> 365 * 2 ^ 26"
    by (simp add: dNewEarthProgress_182 unit_def)
  ultimately show ?thesis
    using earth_agrees [of d] moon_agrees [of d] daysDiff_exact [of referenceDate d]
      dNewEarthProgress_182 by simp
qed

text \<open>
  Claim C3 as stated fails in double precision. The \<open>1200\<close> ticks of one day take
  \<open>earthOrbitProgress\<close> from \<open>0\<close> to \<open>3312125533190804733952\<close> units of \<open>2\<^sup>-\<^sup>8\<^sup>0\<close>, the double
  \<^verbatim>\<open>0.0027397260273972933\<close>; the resynchronisation to the next day gives
  \<open>3312125533190764888064\<close> units, the double \<^verbatim>\<open>0.0027397260273972603\<close>. And the day
  count depends on the time zone: the reference date \<^verbatim>\<open>new Date(2025, 0, 1)\<close> is midnight
  local time, the date input \<^verbatim>\<open>new Date('2025-07-02')\<close> is midnight UTC, so that five
  hours west of UTC the time values are \<open>1735707600000\<close> and \<open>1751414400000\<close>, and the
  date \<open>182\<close> days after the reference date is counted as day \<open>181\<close>.
\<close>

theorem double_precision_differs:
  "(dEarthStep ^^ 1200) 0 = 3312125533190804733952 \<and>
   dNewEarthProgress 1 = 3312125533190764888064 \<and>
   daysDiff 1735707600000 1751414400000 = 181"
  using run_1200 dNewEarthProgress_1 by (simp add: daysDiff_def msPerDay_def)

subsection \<open>The Earth drag in double precision\<close>

text \<open>The quotient and the sum of the drag, by calculation.\<close>

lemma drag_quotient:
  "toDouble (6490371073168535 * 2 ^ 51 * fineUnit) dTwoPi = 8263797110363375 * 2 ^ 48"
proof -
  have e: "excessBits 2326052099181117354830291698240 = 48"
    by (rule excessBits_range) simp_all
  show ?thesis
    by (simp add: toDouble_def e roundAt_def roundHalfEven_def fineUnit_def dTwoPi_def Let_def)
qed

lemma drag_sum:
  "toDouble (fineUnit - 8263797110363375 * 2 ^ 48) 1 = fineUnit"
proof -
  have e: "excessBits 1461501637330902915877632733535165690989537918976 = 107"
    by (rule excessBits_range) simp_all
  show ?thesis
    by (simp add: toDouble_def e roundAt_def roundHalfEven_def fineUnit_def Let_def)
qed

text \<open>
  Claim C7 fails for the Earth drag. The point \<open>(1, -10\<^sup>-\<^sup>1\<^sup>7)\<close> has the angle
  \<^verbatim>\<open>Math.atan2(-1e-17, 1)\<close>, which is \<^verbatim>\<open>-1e-17\<close>; the double \<^verbatim>\<open>1e-17\<close> is
  \<open>6490371073168535 / 2\<^sup>1\<^sup>0\<^sup>9\<close>. The quotient by \<^verbatim>\<open>Math.PI * 2\<close> is negative, about
  \<open>-1.6\<close> times \<open>10\<^sup>-\<^sup>1\<^sup>8\<close>, and the sum \<^verbatim>\<open>progress += 1\<close> rounds to \<open>1\<close>: the value
  stored in \<open>earthOrbitProgress\<close> is \<open>1\<close>, outside \<open>[0, 1)\<close>.
\<close>

theorem earth_drag_stores_one:
  "dEarthDragBelow (6490371073168535 * 2 ^ 51) = fineUnit"
  unfolding dEarthDragBelow_def Let_def drag_quotient drag_sum by (simp add: fineUnit_def)

end
